theory Spec2Isabelle
  imports Complex_Main
begin

section \<open>Data model\<close>

text \<open>
  The drawing page keeps its whole state in React state cells and one ref. The model
  gathers them in one record and turns every handler into a function from the state
  before the event to the state after it. A JavaScript \<open>number\<close> is modelled as a
  real number: rounding of IEEE-754 doubles, \<open>NaN\<close> and signed zeros are outside the
  model. The two places where the source produces an infinite value are written out:
  a division by a zero scale is excluded by a hypothesis \<open>scale st \<noteq> 0\<close> wherever a
  theorem depends on it, and the \<open>Infinity\<close> distance of an empty brush path is the
  branch that is never hit.
\<close>

datatype lineStyle = solid | dashed

datatype tool = line lineStyle | brush | eraser

datatype point = Point (p_x: real) (p_y: real)

datatype shape =
    Segment point point lineStyle string real
  | BrushPath "point list" string real

record geometryPageData =
  page_id :: string
  page_name :: string
  page_shapes :: "shape list"
  page_scale :: "real option"
  page_offset :: "point option"
  page_createdAt :: int
  page_updatedAt :: int

record state =
  currentTool :: "tool option"
  shapes :: "shape list"
  isDrawing :: bool
  startPoint :: "point option"
  previewEnd :: "point option"
  strokeColor :: string
  strokeWidth :: real
  currentPath :: "point list option"
  snapPreview :: "point option"
  hoverWorld :: "point option"
  scale :: real
  offset :: point
  isPanning :: bool
  panLast :: "point option"
  isErasing :: bool
  eraserSizePx :: real
  lastUndoneShape :: "shape option"
  pages :: "geometryPageData list"
  currentPageId :: "string option"
  isDirty :: bool

text \<open>The values the state cells are created with (the arguments of \<open>useState\<close>).\<close>

definition initialState :: state where
  "initialState =
     \<lparr> currentTool = Some (line solid), shapes = [], isDrawing = False,
       startPoint = None, previewEnd = None, strokeColor = ''#111827'', strokeWidth = 2,
       currentPath = None, snapPreview = None, hoverWorld = None, scale = 1,
       offset = Point 0 0, isPanning = False, panLast = None, isErasing = False,
       eraserSizePx = 18, lastUndoneShape = None, pages = [], currentPageId = None,
       isDirty = False \<rparr>"

section \<open>Viewport transform\<close>

definition worldToScreen :: "state \<Rightarrow> point \<Rightarrow> point" where
  "worldToScreen st p =
     Point (p_x p * scale st + p_x (offset st)) (p_y p * scale st + p_y (offset st))"

definition screenToWorld :: "state \<Rightarrow> point \<Rightarrow> point" where
  "screenToWorld st p =
     Point ((p_x p - p_x (offset st)) / scale st) ((p_y p - p_y (offset st)) / scale st)"

section \<open>Snapping helpers\<close>

text \<open>\<open>Math.hypot\<close> of two arguments.\<close>

definition hypot :: "real \<Rightarrow> real \<Rightarrow> real" where
  "hypot dx dy = sqrt (dx * dx + dy * dy)"

text \<open>\<open>Math.atan2 (y, x)\<close>; its value lies in \<open>(-pi, pi]\<close>.\<close>

definition atan2 :: "real \<Rightarrow> real \<Rightarrow> real" where
  "atan2 y x =
     (if 0 < x then arctan (y / x)
      else if x < 0 then (if 0 \<le> y then arctan (y / x) + pi else arctan (y / x) - pi)
      else if 0 < y then pi / 2
      else if y < 0 then - (pi / 2)
      else 0)"

text \<open>The remainder operator \<open>%\<close> of JavaScript: the quotient is truncated towards zero.\<close>

definition js_rem :: "real \<Rightarrow> real \<Rightarrow> real" where
  "js_rem a b =
     (let q = a / b;
          n = (if 0 \<le> q then \<lfloor>q\<rfloor> else \<lceil>q\<rceil>)
      in a - b * of_int n)"

fun endpointsOf :: "shape \<Rightarrow> point list" where
  "endpointsOf (Segment a b sty col w) = [a, b]"
| "endpointsOf (BrushPath pts col w) =
     (if length pts > 0 then [pts ! 0, pts ! (length pts - 1)] else [])"

fun collectEndpoints :: "shape list \<Rightarrow> point list" where
  "collectEndpoints [] = []"
| "collectEndpoints (s # rest) = endpointsOf s @ collectEndpoints rest"

definition getAllEndpoints :: "state \<Rightarrow> point list" where
  "getAllEndpoints st = collectEndpoints (shapes st)"

definition tolPx :: real where
  "tolPx = 12"

definition tolSq :: real where
  "tolSq = tolPx * tolPx"

text \<open>The squared screen distance \<open>d2\<close> that the loop of \<open>snapToEndpoints\<close> computes.\<close>

definition screenD2 :: "state \<Rightarrow> point \<Rightarrow> point \<Rightarrow> real" where
  "screenD2 st world ep =
     (let a = worldToScreen st world;
          b = worldToScreen st ep;
          dx = p_x a - p_x b;
          dy = p_y a - p_y b
      in dx * dx + dy * dy)"

fun snapLoop :: "state \<Rightarrow> point \<Rightarrow> point list \<Rightarrow> (point \<times> real) option \<Rightarrow> (point \<times> real) option" where
  "snapLoop st world [] best = best"
| "snapLoop st world (ep # eps) best =
     (let d2 = screenD2 st world ep
      in if d2 \<le> tolSq \<and> (case best of None \<Rightarrow> True | Some bst \<Rightarrow> d2 < snd bst)
         then snapLoop st world eps (Some (ep, d2))
         else snapLoop st world eps best)"

definition snapToEndpoints :: "state \<Rightarrow> point \<Rightarrow> point option" where
  "snapToEndpoints st world =
     (case snapLoop st world (getAllEndpoints st) None of
        None \<Rightarrow> None
      | Some bst \<Rightarrow> Some (fst bst))"

definition near :: "real \<Rightarrow> real \<Rightarrow> real \<Rightarrow> bool" where
  "near a b t = (\<bar>js_rem (a - b + 180 + 360) 360 - 180\<bar> \<le> t)"

definition forty5 :: "real list" where
  "forty5 = [45, 135, -45, -135]"

fun diagLoop :: "point \<Rightarrow> real \<Rightarrow> real \<Rightarrow> real list \<Rightarrow> point option" where
  "diagLoop start len deg [] = None"
| "diagLoop start len deg (t # ts) =
     (if near deg t 10
      then Some (Point (p_x start + cos ((t * pi) / 180) * len)
                       (p_y start + sin ((t * pi) / 180) * len))
      else diagLoop start len deg ts)"

definition snapAngleDeg :: "point \<Rightarrow> point \<Rightarrow> real" where
  "snapAngleDeg start end =
     (atan2 (p_y end - p_y start) (p_x end - p_x start) * 180) / pi"

definition snapLen :: "point \<Rightarrow> point \<Rightarrow> real" where
  "snapLen start end =
     (let h = hypot (p_x end - p_x start) (p_y end - p_y start)
      in if h = 0 then 1 else h)"

definition snapAxisFromStart :: "point \<Rightarrow> point \<Rightarrow> point" where
  "snapAxisFromStart start end =
     (let len = snapLen start end;
          deg = snapAngleDeg start end
      in if near deg 0 10 \<or> near deg 180 10 then Point (p_x end) (p_y start)
         else if near deg 90 10 \<or> near deg (-90) 10 then Point (p_x start) (p_y end)
         else (case diagLoop start len deg forty5 of
                 Some q \<Rightarrow> q
               | None \<Rightarrow> end))"

section \<open>Eraser helpers\<close>

definition distancePointToSegment :: "point \<Rightarrow> point \<Rightarrow> point \<Rightarrow> real" where
  "distancePointToSegment p a b =
     (let ax = p_x a; ay = p_y a; bx = p_x b; by = p_y b;
          abx = bx - ax; aby = by - ay;
          apx = p_x p - ax; apy = p_y p - ay;
          abLen2 = abx * abx + aby * aby
      in if abLen2 = 0 then hypot (p_x p - ax) (p_y p - ay)
         else (let t0 = (apx * abx + apy * aby) / abLen2;
                   t = max 0 (min 1 t0);
                   cx = ax + t * abx; cy = ay + t * aby
               in hypot (p_x p - cx) (p_y p - cy)))"

text \<open>The inner loop over the consecutive point pairs of a path: \<open>hit\<close> after the loop.\<close>

fun pathHit :: "point \<Rightarrow> real \<Rightarrow> point list \<Rightarrow> bool" where
  "pathHit wp r (a # b # rest) =
     (if distancePointToSegment wp a b \<le> r then True else pathHit wp r (b # rest))"
| "pathHit wp r pts = False"

text \<open>
  Whether the loop body of \<open>eraseAt\<close> drops the shape. An empty path has the distance
  \<open>Infinity\<close>, which no finite radius reaches.
\<close>

fun shapeHit :: "point \<Rightarrow> real \<Rightarrow> shape \<Rightarrow> bool" where
  "shapeHit wp r (Segment a b sty col w) = (distancePointToSegment wp a b \<le> r)"
| "shapeHit wp r (BrushPath pts col w) =
     (if length pts \<le> 1
      then (case pts of
              [] \<Rightarrow> False
            | p0 # rest \<Rightarrow> hypot (p_x wp - p_x p0) (p_y wp - p_y p0) \<le> r)
      else pathHit wp r pts)"

text \<open>The loop of \<open>eraseAt\<close>: the shapes kept, in order, and the flag \<open>changed\<close>.\<close>

fun eraseLoop :: "point \<Rightarrow> real \<Rightarrow> shape list \<Rightarrow> shape list \<times> bool" where
  "eraseLoop wp r [] = ([], False)"
| "eraseLoop wp r (s # rest) =
     (let (kept, changed) = eraseLoop wp r rest
      in if shapeHit wp r s then (kept, True) else (s # kept, changed))"

definition eraseAt :: "state \<Rightarrow> point \<Rightarrow> state" where
  "eraseAt st worldPoint =
     (let radiusWorld = eraserSizePx st / scale st;
          (kept, changed) = eraseLoop worldPoint radiusWorld (shapes st)
      in st\<lparr> shapes := kept,
             isDirty := (if changed then True else isDirty st),
             lastUndoneShape := None \<rparr>)"

section \<open>Pointer, wheel and history handlers\<close>

text \<open>
  Every handler takes the state of the last render and returns the state after all of
  its setter calls. The screen point of a mouse event (\<open>getCanvasPoint\<close>) is an argument.
  Repainting (\<open>drawAll\<close>) changes no state cell and is left out.
\<close>

definition orElse :: "'a option \<Rightarrow> 'a \<Rightarrow> 'a" where
  "orElse v d = (case v of Some a \<Rightarrow> a | None \<Rightarrow> d)"

definition handleMouseDown :: "state \<Rightarrow> point \<Rightarrow> state" where
  "handleMouseDown st pScreen =
     (if currentTool st = Some eraser
      then (let pWorld = screenToWorld st pScreen
            in eraseAt (st\<lparr> hoverWorld := Some pWorld, isErasing := True \<rparr>) pWorld)
      else if currentTool st = None
      then st\<lparr> isPanning := True, panLast := Some pScreen \<rparr>
      else (let pWorld = screenToWorld st pScreen
            in if currentTool st = Some brush
               then st\<lparr> currentPath := Some [pWorld], isDrawing := True \<rparr>
               else (let snappedStart = orElse (snapToEndpoints st pWorld) pWorld
                     in st\<lparr> startPoint := Some snappedStart,
                            previewEnd := Some snappedStart,
                            isDrawing := True \<rparr>)))"

definition handleMouseMove :: "state \<Rightarrow> point \<Rightarrow> state" where
  "handleMouseMove st pScreen =
     (let st1 = st\<lparr> hoverWorld := Some (screenToWorld st pScreen) \<rparr>
      in if isPanning st
         then (let st2 = (case panLast st of
                            Some lastP \<Rightarrow>
                              (let dx = p_x pScreen - p_x lastP;
                                   dy = p_y pScreen - p_y lastP
                               in st1\<lparr> offset := Point (p_x (offset st) + dx)
                                                        (p_y (offset st) + dy) \<rparr>)
                          | None \<Rightarrow> st1)
               in st2\<lparr> panLast := Some pScreen \<rparr>)
         else if isErasing st \<and> currentTool st = Some eraser
         then eraseAt st1 (screenToWorld st pScreen)
         else if \<not> isDrawing st then st1
         else (let pWorld = screenToWorld st pScreen
               in if currentTool st = Some brush
                  then st1\<lparr> currentPath :=
                              Some (case currentPath st of
                                      Some prev \<Rightarrow> prev @ [pWorld]
                                    | None \<Rightarrow> [pWorld]) \<rparr>
                  else (let snappedEnd =
                              orElse (snapToEndpoints st pWorld)
                                (case startPoint st of
                                   Some sp \<Rightarrow> snapAxisFromStart sp pWorld
                                 | None \<Rightarrow> pWorld)
                        in st1\<lparr> previewEnd := Some snappedEnd,
                                snapPreview := snapToEndpoints st pWorld \<rparr>)))"

definition handleMouseUp :: "state \<Rightarrow> point \<Rightarrow> state" where
  "handleMouseUp st pScreen =
     (if isErasing st then st\<lparr> isErasing := False \<rparr>
      else if isPanning st then st\<lparr> isPanning := False, panLast := None \<rparr>
      else if \<not> isDrawing st then st
      else if currentTool st = Some brush
      then st\<lparr> shapes := shapes st @
                    [BrushPath (orElse (currentPath st) []) (strokeColor st) (strokeWidth st)],
               isDirty := True,
               lastUndoneShape := None,
               currentPath := None,
               isDrawing := False \<rparr>
      else (case (startPoint st, currentTool st) of
              (Some sp, Some (line sty)) \<Rightarrow>
                (let endWorld = screenToWorld st pScreen;
                     snappedEnd = orElse (snapToEndpoints st endWorld)
                                    (snapAxisFromStart sp endWorld)
                 in st\<lparr> shapes := shapes st @
                               [Segment sp snappedEnd sty (strokeColor st) (strokeWidth st)],
                          isDirty := True,
                          lastUndoneShape := None,
                          isDrawing := False,
                          startPoint := None,
                          previewEnd := None,
                          snapPreview := None \<rparr>)
            | _ \<Rightarrow> st))"

definition handleMouseLeave :: "state \<Rightarrow> state" where
  "handleMouseLeave st =
     (if isPanning st then st\<lparr> isPanning := False, panLast := None \<rparr>
      else (let st1 = (if isErasing st then st\<lparr> isErasing := False \<rparr> else st)
            in if \<not> isDrawing st then st1
               else st1\<lparr> isDrawing := False, startPoint := None, previewEnd := None,
                         currentPath := None, snapPreview := None \<rparr>))"

text \<open>The wheel handler; \<open>deltaY\<close> and the screen point of the event are arguments.\<close>

definition wheelScale :: "real \<Rightarrow> real \<Rightarrow> real" where
  "wheelScale oldScale deltaY =
     (let delta = - deltaY;
          zoomFactor = exp (delta * 0.001)
      in min 6 (max 0.2 (oldScale * zoomFactor)))"

definition handleWheel :: "state \<Rightarrow> real \<Rightarrow> point \<Rightarrow> state" where
  "handleWheel st deltaY mouseScreen =
     (let oldScale = scale st;
          newScale = wheelScale oldScale deltaY
      in if newScale = oldScale then st
         else (let mouseWorld = screenToWorld st mouseScreen;
                   newOffset = Point (p_x mouseScreen - p_x mouseWorld * newScale)
                                     (p_y mouseScreen - p_y mouseWorld * newScale)
               in st\<lparr> scale := newScale, offset := newOffset \<rparr>))"

definition undo :: "state \<Rightarrow> state" where
  "undo st =
     (let prev = shapes st
      in if length prev = 0 then st
         else (let removed = prev ! (length prev - 1)
               in st\<lparr> lastUndoneShape := Some removed,
                        isDirty := True,
                        shapes := take (length prev - 1) prev \<rparr>))"

definition redo :: "state \<Rightarrow> state" where
  "redo st =
     (case lastUndoneShape st of
        None \<Rightarrow> st
      | Some s \<Rightarrow> st\<lparr> shapes := shapes st @ [s], lastUndoneShape := None, isDirty := True \<rparr>)"

definition clearAll :: "state \<Rightarrow> state" where
  "clearAll st = st\<lparr> shapes := [], isDirty := True, lastUndoneShape := None \<rparr>"

definition keyEscape :: "state \<Rightarrow> state" where
  "keyEscape st = st\<lparr> isDrawing := False, startPoint := None, previewEnd := None \<rparr>"

text \<open>A toolbar button toggles its tool: \<open>s === t ? null : t\<close>.\<close>

definition toggleTool :: "state \<Rightarrow> tool \<Rightarrow> state" where
  "toggleTool st t = st\<lparr> currentTool := (if currentTool st = Some t then None else Some t) \<rparr>"

section \<open>Page operations\<close>

text \<open>
  The results of \<open>prompt\<close> (already trimmed; \<open>None\<close> when the dialog is cancelled), of
  \<open>confirm\<close>, of \<open>generateId\<close> and of \<open>Date.now\<close> are arguments. Writing to the
  browser's storage (\<open>savePagesToStorage\<close>) changes no state cell and is left out; what
  the mount effect reads from the storage is an argument of \<open>loadPages\<close>.
\<close>

text \<open>Truthiness of a \<open>string | null\<close>: neither \<open>null\<close> nor the empty string.\<close>

definition truthyStr :: "string option \<Rightarrow> bool" where
  "truthyStr v = (case v of None \<Rightarrow> False | Some s \<Rightarrow> s \<noteq> [])"

text \<open>\<open>page.scale || 1\<close>: a missing or zero scale gives 1.\<close>

definition scaleOr1 :: "real option \<Rightarrow> real" where
  "scaleOr1 v = (case v of None \<Rightarrow> 1 | Some s \<Rightarrow> if s = 0 then 1 else s)"

definition freshPage :: "string \<Rightarrow> string \<Rightarrow> int \<Rightarrow> geometryPageData" where
  "freshPage gid nm now =
     \<lparr> page_id = gid, page_name = nm, page_shapes = [], page_scale = Some 1,
       page_offset = Some (Point 0 0), page_createdAt = now, page_updatedAt = now \<rparr>"

definition commitSave :: "state \<Rightarrow> int \<Rightarrow> state" where
  "commitSave st now =
     (if \<not> truthyStr (currentPageId st) then st
      else st\<lparr> pages :=
                  map (\<lambda>p. if Some (page_id p) = currentPageId st
                            then p\<lparr> page_shapes := shapes st,
                                    page_scale := Some (scale st),
                                    page_offset := Some (offset st),
                                    page_updatedAt := now \<rparr>
                            else p) (pages st),
               isDirty := False \<rparr>)"

definition createNewPage :: "state \<Rightarrow> string option \<Rightarrow> string \<Rightarrow> int \<Rightarrow> state" where
  "createNewPage st nm gid now =
     (case nm of
        None \<Rightarrow> st
      | Some n \<Rightarrow>
          if n = [] then st
          else st\<lparr> pages := freshPage gid n now # pages st,
                   currentPageId := Some gid,
                   shapes := [],
                   scale := 1,
                   offset := Point 0 0,
                   isDirty := False \<rparr>)"

definition saveAsNewPage :: "state \<Rightarrow> string option \<Rightarrow> string \<Rightarrow> int \<Rightarrow> state" where
  "saveAsNewPage st nm gid now =
     (if \<not> truthyStr (currentPageId st) then st
      else (case find (\<lambda>p. Some (page_id p) = currentPageId st) (pages st) of
              None \<Rightarrow> st
            | Some base \<Rightarrow>
                (case nm of
                   None \<Rightarrow> st
                 | Some n \<Rightarrow>
                     if n = [] then st
                     else (let clone = \<lparr> page_id = gid, page_name = n,
                                           page_shapes = shapes st,
                                           page_scale = Some (scale st),
                                           page_offset = Some (offset st),
                                           page_createdAt = now, page_updatedAt = now \<rparr>
                           in st\<lparr> pages := clone # pages st,
                                    currentPageId := Some gid,
                                    isDirty := False \<rparr>))))"

definition renameCurrentPage :: "state \<Rightarrow> string option \<Rightarrow> int \<Rightarrow> state" where
  "renameCurrentPage st nm now =
     (if \<not> truthyStr (currentPageId st) then st
      else (case find (\<lambda>p. Some (page_id p) = currentPageId st) (pages st) of
              None \<Rightarrow> st
            | Some page \<Rightarrow>
                (case nm of
                   None \<Rightarrow> st
                 | Some n \<Rightarrow>
                     if n = [] then st
                     else st\<lparr> pages :=
                                 map (\<lambda>p. if Some (page_id p) = currentPageId st
                                           then p\<lparr> page_name := n, page_updatedAt := now \<rparr>
                                           else p) (pages st) \<rparr>)))"

text \<open>Activating a stored page: what \<open>deleteCurrentPage\<close> and \<open>changeCurrentPage\<close> set.\<close>

definition activatePage :: "state \<Rightarrow> geometryPageData \<Rightarrow> state" where
  "activatePage st page =
     st\<lparr> currentPageId := Some (page_id page),
          shapes := page_shapes page,
          scale := scaleOr1 (page_scale page),
          offset := orElse (page_offset page) (Point 0 0),
          isDirty := False \<rparr>"

definition deleteCurrentPage :: "state \<Rightarrow> bool \<Rightarrow> string \<Rightarrow> int \<Rightarrow> state" where
  "deleteCurrentPage st ok gid now =
     (if \<not> truthyStr (currentPageId st) then st
      else if \<not> ok then st
      else (case filter (\<lambda>p. Some (page_id p) \<noteq> currentPageId st) (pages st) of
              [] \<Rightarrow>
                st\<lparr> pages := [freshPage gid ''Trang 1'' now],
                     currentPageId := Some gid,
                     shapes := [],
                     scale := 1,
                     offset := Point 0 0,
                     isDirty := False \<rparr>
            | page # rest \<Rightarrow> activatePage (st\<lparr> pages := page # rest \<rparr>) page))"

definition changeCurrentPage :: "state \<Rightarrow> string \<Rightarrow> bool \<Rightarrow> int \<Rightarrow> state" where
  "changeCurrentPage st i ok now =
     (if Some i = currentPageId st then st
      else (case find (\<lambda>p. page_id p = i) (pages st) of
              None \<Rightarrow> st
            | Some page \<Rightarrow>
                (let st1 = (if isDirty st \<and> truthyStr (currentPageId st) \<and> ok
                            then commitSave st now else st)
                 in activatePage st1 page)))"

text \<open>
  What the mount effect finds under the storage key: nothing, text that \<open>JSON.parse\<close>
  rejects, a value that is not an array, or an array of pages.
\<close>

datatype storedPages = NoItem | ParseError | NotArray | Parsed "geometryPageData list"

definition loadPages :: "state \<Rightarrow> storedPages \<Rightarrow> string option \<Rightarrow> string \<Rightarrow> int \<Rightarrow> state" where
  "loadPages st raw cur gid now =
     (case raw of
        ParseError \<Rightarrow> st
      | _ \<Rightarrow>
          (let parsed = (case raw of Parsed ps \<Rightarrow> ps | _ \<Rightarrow> []);
               loaded = (if length parsed = 0 then [freshPage gid ''Trang 1'' now] else parsed);
               chosen = (if truthyStr cur
                            \<and> find (\<lambda>p. Some (page_id p) = cur) loaded \<noteq> None
                         then orElse cur [] else page_id (loaded ! 0))
           in (case find (\<lambda>p. page_id p = chosen) loaded of
                 None \<Rightarrow> st
               | Some page \<Rightarrow>
                   st\<lparr> pages := loaded,
                        currentPageId := Some chosen,
                        shapes := page_shapes page,
                        scale := (case page_scale page of
                                    None \<Rightarrow> scale st
                                  | Some s \<Rightarrow> if s = 0 then scale st else s),
                        offset := orElse (page_offset page) (offset st),
                        isDirty := False \<rparr>)))"

section \<open>Events and runs\<close>

datatype event =
    MouseDown point
  | MouseMove point
  | MouseUp point
  | MouseLeave
  | Wheel real point
  | Undo
  | Redo
  | ClearAll
  | KeyEscape
  | ToggleTool tool
  | CommitSave int
  | CreateNewPage "string option" string int
  | SaveAsNewPage "string option" string int
  | RenameCurrentPage "string option" int
  | DeleteCurrentPage bool string int
  | ChangeCurrentPage string bool int
  | LoadPages storedPages "string option" string int

fun step :: "state \<Rightarrow> event \<Rightarrow> state" where
  "step st (MouseDown p) = handleMouseDown st p"
| "step st (MouseMove p) = handleMouseMove st p"
| "step st (MouseUp p) = handleMouseUp st p"
| "step st MouseLeave = handleMouseLeave st"
| "step st (Wheel deltaY p) = handleWheel st deltaY p"
| "step st Undo = undo st"
| "step st Redo = redo st"
| "step st ClearAll = clearAll st"
| "step st KeyEscape = keyEscape st"
| "step st (ToggleTool t) = toggleTool st t"
| "step st (CommitSave now) = commitSave st now"
| "step st (CreateNewPage nm gid now) = createNewPage st nm gid now"
| "step st (SaveAsNewPage nm gid now) = saveAsNewPage st nm gid now"
| "step st (RenameCurrentPage nm now) = renameCurrentPage st nm now"
| "step st (DeleteCurrentPage ok gid now) = deleteCurrentPage st ok gid now"
| "step st (ChangeCurrentPage i ok now) = changeCurrentPage st i ok now"
| "step st (LoadPages raw cur gid now) = loadPages st raw cur gid now"

fun run :: "state \<Rightarrow> event list \<Rightarrow> state" where
  "run st [] = st"
| "run st (e # es) = run (step st e) es"

section \<open>Notions of the specification\<close>

text \<open>
  The definitions of this section follow the words of the specification, not the code;
  the theorems below relate the handlers to them.
\<close>

definition scaleInRange :: "real \<Rightarrow> bool" where
  "scaleInRange s = (0.2 \<le> s \<and> s \<le> 6)"

text \<open>Euclidean distance of two points.\<close>

definition pointDistance :: "point \<Rightarrow> point \<Rightarrow> real" where
  "pointDistance p q = sqrt ((p_x p - p_x q)\<^sup>2 + (p_y p - p_y q)\<^sup>2)"

text \<open>
  The closest-point-on-segment formula: the point of the line through \<open>a\<close> and \<open>b\<close> at
  parameter \<open>t\<close>, the parameter of the orthogonal projection of \<open>p\<close>, and the distance
  from \<open>p\<close> to the point at the projection parameter clamped to \<open>[0, 1]\<close>.
\<close>

definition segmentPoint :: "point \<Rightarrow> point \<Rightarrow> real \<Rightarrow> point" where
  "segmentPoint a b t = Point (p_x a + t * (p_x b - p_x a)) (p_y a + t * (p_y b - p_y a))"

definition projectionParam :: "point \<Rightarrow> point \<Rightarrow> point \<Rightarrow> real" where
  "projectionParam p a b =
     ((p_x p - p_x a) * (p_x b - p_x a) + (p_y p - p_y a) * (p_y b - p_y a))
       / ((p_x b - p_x a)\<^sup>2 + (p_y b - p_y a)\<^sup>2)"

definition clampUnit :: "real \<Rightarrow> real" where
  "clampUnit t = (if t < 0 then 0 else if 1 < t then 1 else t)"

definition segmentDistance :: "point \<Rightarrow> point \<Rightarrow> point \<Rightarrow> real" where
  "segmentDistance p a b = pointDistance p (segmentPoint a b (clampUnit (projectionParam p a b)))"

text \<open>
  A shape passes within radius \<open>r\<close> of a point: a segment by its distance, a path of two
  or more points by some pair of consecutive points, a path of one point by that point,
  an empty path never.
\<close>

fun withinRadius :: "point \<Rightarrow> real \<Rightarrow> shape \<Rightarrow> bool" where
  "withinRadius wp r (Segment a b sty col w) = (segmentDistance wp a b \<le> r)"
| "withinRadius wp r (BrushPath pts col w) =
     (if 2 \<le> length pts
      then list_ex (\<lambda>ab. segmentDistance wp (fst ab) (snd ab) \<le> r) (zip pts (tl pts))
      else if length pts = 1 then pointDistance wp (hd pts) \<le> r
      else False)"

text \<open>The endpoints of a shape, and the distance of two world points on the screen.\<close>

fun shapeEndpoints :: "shape \<Rightarrow> point list" where
  "shapeEndpoints (Segment a b sty col w) = [a, b]"
| "shapeEndpoints (BrushPath pts col w) = (if pts = [] then [] else [hd pts, last pts])"

definition screenDistance :: "state \<Rightarrow> point \<Rightarrow> point \<Rightarrow> real" where
  "screenDistance st p q = pointDistance (worldToScreen st p) (worldToScreen st q)"

text \<open>
  Two angles in degrees, each between \<open>-180\<close> and \<open>180\<close>, are within \<open>t\<close> degrees of each
  other on the circle; and the point at distance \<open>len\<close> from \<open>start\<close> on the ray of
  angle \<open>t\<close> degrees.
\<close>

definition withinDegrees :: "real \<Rightarrow> real \<Rightarrow> real \<Rightarrow> bool" where
  "withinDegrees a b t = (\<bar>a - b\<bar> \<le> t \<or> \<bar>a - b - 360\<bar> \<le> t \<or> \<bar>a - b + 360\<bar> \<le> t)"

definition rayPoint :: "point \<Rightarrow> real \<Rightarrow> real \<Rightarrow> point" where
  "rayPoint start len t =
     Point (p_x start + len * cos (t * pi / 180)) (p_y start + len * sin (t * pi / 180))"

text \<open>Every stored page that carries a scale carries one in range.\<close>

definition pageScalesInRange :: "geometryPageData list \<Rightarrow> bool" where
  "pageScalesInRange ps =
     list_all (\<lambda>p. case page_scale p of None \<Rightarrow> True | Some s \<Rightarrow> scaleInRange s) ps"

definition scaleInvariant :: "state \<Rightarrow> bool" where
  "scaleInvariant st = (scaleInRange (scale st) \<and> pageScalesInRange (pages st))"

text \<open>What the mount effect reads from the storage holds pages whose scales are in range.\<close>

fun storedScalesInRange :: "event \<Rightarrow> bool" where
  "storedScalesInRange (LoadPages (Parsed ps) cur gid now) = pageScalesInRange ps"
| "storedScalesInRange e = True"

text \<open>The events of the drawing surface itself, as opposed to the page operations.\<close>

fun editingEvent :: "event \<Rightarrow> bool" where
  "editingEvent (CommitSave now) = False"
| "editingEvent (CreateNewPage nm gid now) = False"
| "editingEvent (SaveAsNewPage nm gid now) = False"
| "editingEvent (RenameCurrentPage nm now) = False"
| "editingEvent (DeleteCurrentPage ok gid now) = False"
| "editingEvent (ChangeCurrentPage i ok now) = False"
| "editingEvent (LoadPages raw cur gid now) = False"
| "editingEvent e = True"

text \<open>
  A segment or brush gesture is in progress, so that the next pointer-up commits a shape:
  the page is drawing (not erasing, not panning) with the brush, or with a line tool and
  a start point.
\<close>

definition gestureCompletes :: "state \<Rightarrow> bool" where
  "gestureCompletes st =
     (\<not> isErasing st \<and> \<not> isPanning st \<and> isDrawing st
      \<and> (case currentTool st of
            Some brush \<Rightarrow> True
          | Some (line sty) \<Rightarrow> startPoint st \<noteq> None
          | _ \<Rightarrow> False))"

text \<open>No gesture is in progress and a drawing tool is selected.\<close>

definition readyToDraw :: "state \<Rightarrow> bool" where
  "readyToDraw st =
     (\<not> isErasing st \<and> \<not> isPanning st \<and> \<not> isDrawing st
      \<and> (case currentTool st of
            Some brush \<Rightarrow> True
          | Some (line sty) \<Rightarrow> True
          | _ \<Rightarrow> False))"

section \<open>Loop invariant of the endpoint search\<close>

text \<open>
  The values that \<open>best\<close> can hold inside the loop of \<open>snapToEndpoints\<close>: an endpoint
  with its own squared distance, within the tolerance.
\<close>

definition bestOk :: "state \<Rightarrow> point \<Rightarrow> (point \<times> real) option \<Rightarrow> bool" where
  "bestOk st world best =
     (case best of None \<Rightarrow> True | Some b \<Rightarrow> snd b = screenD2 st world (fst b) \<and> snd b \<le> tolSq)"

section \<open>Example states\<close>

text \<open>Concrete shapes and states at which the theorems below are instantiated.\<close>

definition demoSegment :: shape where
  "demoSegment = Segment (Point 0 0) (Point 100 0) solid ''#111827'' 2"

definition demoPath :: shape where
  "demoPath = BrushPath [Point 0 0, Point 100 0, Point 200 0] ''#111827'' 2"

definition demoDot :: shape where
  "demoDot = BrushPath [Point 150 5] ''#111827'' 2"

definition demoEmptyPath :: shape where
  "demoEmptyPath = BrushPath [] ''#111827'' 2"

definition eraserState :: "shape list \<Rightarrow> state" where
  "eraserState ss = initialState\<lparr> currentTool := Some eraser, shapes := ss, eraserSizePx := 10 \<rparr>"

definition snapState :: "shape list \<Rightarrow> state" where
  "snapState ss = initialState\<lparr> shapes := ss \<rparr>"

definition historyState :: state where
  "historyState = initialState\<lparr> shapes := [demoSegment, demoDot] \<rparr>"

definition storedPage :: "string \<Rightarrow> real \<Rightarrow> geometryPageData" where
  "storedPage i s = (freshPage i ''Trang 1'' 0)\<lparr> page_scale := Some s \<rparr>"

definition pageSession :: "event list" where
  "pageSession =
     [LoadPages (Parsed [storedPage ''a'' 3, storedPage ''b'' 0.5]) None ''g'' 0,
      Wheel (- 10000) (Point 3 4),
      CommitSave 1,
      ChangeCurrentPage ''b'' True 2,
      DeleteCurrentPage True ''h'' 3]"

definition pagedState :: state where
  "pagedState =
     initialState\<lparr> pages := [storedPage ''a'' 3, storedPage ''b'' 0.5],
                    currentPageId := Some ''a'', isDirty := True \<rparr>"

definition panningState :: state where
  "panningState =
     initialState\<lparr> currentTool := None, isPanning := True, panLast := Some (Point 0 0) \<rparr>"

section \<open>The viewport transform\<close>

text \<open>
  Claim C1. For every world point, every scale between 0.2 and 6.0 and every offset,
  mapping the point to the screen and back to the world returns the point: over the
  real numbers \<open>screenToWorld\<close> undoes \<open>worldToScreen\<close> exactly.
\<close>

theorem transform_inverse:
  assumes "scaleInRange (scale st)"
  shows "screenToWorld st (worldToScreen st p) = p"
proof -
  from assms have nz: "scale st \<noteq> 0"
    by (simp add: scaleInRange_def)
  then show ?thesis
    by (cases p) (simp add: screenToWorld_def worldToScreen_def)
qed

theorem transform_inverse_witness:
  "scaleInRange (scale (initialState\<lparr> scale := 3, offset := Point 5 (-2) \<rparr>))
   \<and> screenToWorld (initialState\<lparr> scale := 3, offset := Point 5 (-2) \<rparr>)
        (worldToScreen (initialState\<lparr> scale := 3, offset := Point 5 (-2) \<rparr>) (Point 7 11))
      = Point 7 11"
  using transform_inverse [of "initialState\<lparr> scale := 3, offset := Point 5 (-2) \<rparr>" "Point 7 11"]
  by (simp add: scaleInRange_def)

lemma wheelScale_range: "scaleInRange (wheelScale s d)"
  by (simp add: wheelScale_def scaleInRange_def Let_def)

lemma wheelScale_zoom_in_max: "wheelScale 1 (- 10000) = 6"
proof -
  have "1 + (10::real) \<le> exp 10" by (rule exp_ge_add_one_self)
  then have "(6::real) \<le> exp 10" by simp
  then show ?thesis
    by (simp add: wheelScale_def Let_def)
qed



section \<open>The eraser\<close>

lemma hypot_pointDistance: "hypot (p_x p - p_x q) (p_y p - p_y q) = pointDistance p q"
  by (simp add: hypot_def pointDistance_def power2_eq_square)

lemma sum_squares_zero: "(u::real) * u + v * v = 0 \<longleftrightarrow> u = 0 \<and> v = 0"
  by (rule sum_squares_eq_zero_iff)

lemma clampUnit_max_min: "max 0 (min 1 t) = clampUnit t"
  by (simp add: clampUnit_def max_def min_def)

lemma distancePointToSegment_eq: "distancePointToSegment p a b = segmentDistance p a b"
proof (cases "(p_x b - p_x a) * (p_x b - p_x a) + (p_y b - p_y a) * (p_y b - p_y a) = 0")
  case True
  then have z: "p_x b - p_x a = 0" "p_y b - p_y a = 0"
    by (simp_all only: sum_squares_zero)
  have "segmentPoint a b t = a" for t
    using z by (cases a) (simp add: segmentPoint_def)
  then show ?thesis
    using True
    by (simp add: distancePointToSegment_def segmentDistance_def Let_def hypot_pointDistance)
next
  case False
  then show ?thesis
    by (simp add: distancePointToSegment_def segmentDistance_def Let_def hypot_def
        pointDistance_def segmentPoint_def projectionParam_def clampUnit_max_min
        power2_eq_square)
qed

lemma pathHit_list_ex:
  "pathHit wp r pts = list_ex (\<lambda>ab. segmentDistance wp (fst ab) (snd ab) \<le> r) (zip pts (tl pts))"
  by (induction wp r pts rule: pathHit.induct) (simp_all add: distancePointToSegment_eq)

lemma shapeHit_withinRadius: "shapeHit wp r s = withinRadius wp r s"
proof (cases s)
  case (Segment a b sty col w)
  then show ?thesis by (simp add: distancePointToSegment_eq)
next
  case (BrushPath pts col w)
  show ?thesis
  proof (cases pts)
    case Nil
    with BrushPath show ?thesis by simp
  next
    case (Cons p0 rest)
    with BrushPath show ?thesis
      by (cases rest) (simp_all add: hypot_pointDistance pathHit_list_ex
          del: pathHit.simps)
  qed
qed

lemma eraseLoop_fst: "fst (eraseLoop wp r ss) = filter (\<lambda>s. \<not> withinRadius wp r s) ss"
  by (induction ss) (simp_all add: shapeHit_withinRadius case_prod_beta)

lemma eraseLoop_snd: "snd (eraseLoop wp r ss) = list_ex (withinRadius wp r) ss"
  by (induction ss) (simp_all add: shapeHit_withinRadius case_prod_beta)

lemma eraseAt_shapes:
  "shapes (eraseAt st wp) =
     filter (\<lambda>s. \<not> withinRadius wp (eraserSizePx st / scale st) s) (shapes st)"
  using eraseLoop_fst [of wp "eraserSizePx st / scale st" "shapes st"]
  by (simp add: eraseAt_def Let_def case_prod_beta)

lemma eraseAt_isDirty:
  "isDirty (eraseAt st wp) =
     (list_ex (withinRadius wp (eraserSizePx st / scale st)) (shapes st) \<or> isDirty st)"
  using eraseLoop_snd [of wp "eraserSizePx st / scale st" "shapes st"]
  by (simp add: eraseAt_def Let_def case_prod_beta)

lemma eraseAt_lastUndoneShape: "lastUndoneShape (eraseAt st wp) = None"
  by (simp add: eraseAt_def Let_def case_prod_beta)

lemma ex_nat_split: "(\<exists>i. R i) \<longleftrightarrow> R 0 \<or> (\<exists>j. R (Suc j))"
  by (metis not0_implies_Suc)

lemma list_ex_consecutive:
  "list_ex P (zip pts (tl pts)) \<longleftrightarrow> (\<exists>i. Suc i < length pts \<and> P (pts ! i, pts ! Suc i))"
proof (induction pts)
  case Nil
  show ?case by simp
next
  case (Cons a rest)
  show ?case
  proof (cases rest)
    case Nil
    then show ?thesis by simp
  next
    case (Cons b r)
    have "list_ex P (zip (a # rest) (tl (a # rest))) \<longleftrightarrow> P (a, b) \<or> list_ex P (zip rest (tl rest))"
      using Cons by simp
    also have "\<dots> \<longleftrightarrow> P (a, b) \<or> (\<exists>j. Suc j < length rest \<and> P (rest ! j, rest ! Suc j))"
      using Cons.IH by simp
    also have "\<dots> \<longleftrightarrow> (\<exists>i. Suc i < length (a # rest) \<and> P ((a # rest) ! i, (a # rest) ! Suc i))"
      using Cons by (subst (2) ex_nat_split) simp
    finally show ?thesis .
  qed
qed

lemma clamped_quadratic_least:
  fixes apx apy abx aby t :: real
  assumes t: "0 \<le> t" "t \<le> 1"
  defines "L \<equiv> abx\<^sup>2 + aby\<^sup>2"
    and "D \<equiv> apx * abx + apy * aby"
  defines "ts \<equiv> clampUnit (D / L)"
  shows "(apx - ts * abx)\<^sup>2 + (apy - ts * aby)\<^sup>2 \<le> (apx - t * abx)\<^sup>2 + (apy - t * aby)\<^sup>2"
proof (cases "L = 0")
  case True
  then have "abx = 0" "aby = 0"
    by (simp_all add: L_def)
  then show ?thesis by simp
next
  case False
  have Lpos: "0 < L"
    using False by (simp add: L_def sum_power2_gt_zero_iff)
  define t0 where "t0 = D / L"
  have D: "D = t0 * L"
    using False by (simp add: t0_def)
  have diff: "((apx - t * abx)\<^sup>2 + (apy - t * aby)\<^sup>2) - ((apx - ts * abx)\<^sup>2 + (apy - ts * aby)\<^sup>2)
      = (t - ts) * ((t + ts) * L - 2 * D)"
    by (simp add: L_def D_def power2_eq_square algebra_simps)
  have e2: "(t - ts) * ((t + ts) * L - 2 * D) = L * ((t - ts) * (t + ts - 2 * t0))"
    by (simp add: D algebra_simps)
  have diff': "((apx - t * abx)\<^sup>2 + (apy - t * aby)\<^sup>2) - ((apx - ts * abx)\<^sup>2 + (apy - ts * aby)\<^sup>2)
      = L * ((t - ts) * (t + ts - 2 * t0))"
    by (simp only: diff e2)
  have sign: "0 \<le> (t - ts) * (t + ts - 2 * t0)"
  proof -
    consider (neg) "t0 < 0" | (big) "\<not> t0 < 0" "1 < t0" | (mid) "\<not> t0 < 0" "\<not> 1 < t0"
      by blast
    then show ?thesis
    proof cases
      case neg
      then have "ts = 0" by (simp add: ts_def t0_def clampUnit_def)
      moreover have "0 \<le> t * (t - 2 * t0)"
        using neg t by (intro mult_nonneg_nonneg) simp_all
      ultimately show ?thesis by simp
    next
      case big
      then have "ts = 1" by (simp add: ts_def t0_def clampUnit_def)
      moreover have "0 \<le> (t - 1) * (t + 1 - 2 * t0)"
        using big t by (intro mult_nonpos_nonpos) simp_all
      ultimately show ?thesis by simp
    next
      case mid
      then have "ts = t0" by (simp add: ts_def t0_def clampUnit_def)
      then have "(t - ts) * (t + ts - 2 * t0) = (t - t0)\<^sup>2"
        by (simp add: power2_eq_square)
      then show ?thesis by simp
    qed
  qed
  have "0 \<le> L * ((t - ts) * (t + ts - 2 * t0))"
    using Lpos sign by simp
  with diff' show ?thesis by linarith
qed

lemma segmentDistance_least:
  assumes "0 \<le> t" "t \<le> 1"
  shows "segmentDistance p a b \<le> pointDistance p (segmentPoint a b t)"
proof -
  have "(p_x p - p_x a - clampUnit (projectionParam p a b) * (p_x b - p_x a))\<^sup>2
        + (p_y p - p_y a - clampUnit (projectionParam p a b) * (p_y b - p_y a))\<^sup>2
      \<le> (p_x p - p_x a - t * (p_x b - p_x a))\<^sup>2 + (p_y p - p_y a - t * (p_y b - p_y a))\<^sup>2"
    unfolding projectionParam_def
    by (rule clamped_quadratic_least [OF assms])
  then show ?thesis
    by (simp add: segmentDistance_def pointDistance_def segmentPoint_def algebra_simps)
qed

lemma eraserState_simps:
  "scale (eraserState ss) = 1" "eraserSizePx (eraserState ss) = 10" "shapes (eraserState ss) = ss"
  "isDirty (eraserState ss) = False"
  by (simp_all add: eraserState_def initialState_def)

text \<open>
  Claim C3. With a non-zero scale, \<open>eraseAt\<close> uses the radius \<open>eraserSizePx / scale\<close>
  and removes a segment of the store exactly when the distance from the erase point to
  the finite segment is at most that radius; a segment farther away stays in the store.
  The distance the code computes is the one of the closest-point formula with the
  projection parameter clamped to \<open>[0, 1]\<close>, and no point of the segment is nearer.
\<close>

theorem erase_segment:
  assumes "scale st \<noteq> 0"
    and "Segment a b sty col w \<in> set (shapes st)"
  shows "distancePointToSegment wp a b = segmentDistance wp a b
    \<and> (\<forall>t. 0 \<le> t \<and> t \<le> 1 \<longrightarrow> segmentDistance wp a b \<le> pointDistance wp (segmentPoint a b t))
    \<and> (Segment a b sty col w \<notin> set (shapes (eraseAt st wp)))
        = (segmentDistance wp a b \<le> eraserSizePx st / scale st)
    \<and> (eraserSizePx st / scale st < segmentDistance wp a b
        \<longrightarrow> Segment a b sty col w \<in> set (shapes (eraseAt st wp)))"
  using assms(2)
  by (simp add: distancePointToSegment_eq segmentDistance_least eraseAt_shapes)

lemma demo_distances:
  "segmentDistance (Point 50 0) (Point 0 0) (Point 100 0) = 0"
  "segmentDistance (Point 50 50) (Point 0 0) (Point 100 0) = 50"
  by (simp_all add: segmentDistance_def pointDistance_def segmentPoint_def projectionParam_def
      clampUnit_def)

theorem erase_segment_witness:
  "scale (eraserState [demoSegment]) \<noteq> 0
   \<and> demoSegment \<in> set (shapes (eraserState [demoSegment]))
   \<and> eraserSizePx (eraserState [demoSegment]) / scale (eraserState [demoSegment]) = 10
   \<and> segmentDistance (Point 50 0) (Point 0 0) (Point 100 0) = 0
   \<and> demoSegment \<notin> set (shapes (eraseAt (eraserState [demoSegment]) (Point 50 0)))
   \<and> segmentDistance (Point 50 50) (Point 0 0) (Point 100 0) = 50
   \<and> demoSegment \<in> set (shapes (eraseAt (eraserState [demoSegment]) (Point 50 50)))"
proof -
  let ?st = "eraserState [demoSegment]"
  have nz: "scale ?st \<noteq> 0" by (simp add: eraserState_simps)
  have mem: "Segment (Point 0 0) (Point 100 0) solid ''#111827'' 2 \<in> set (shapes ?st)"
    by (simp add: eraserState_simps demoSegment_def)
  from erase_segment [OF nz mem, of "Point 50 0"] erase_segment [OF nz mem, of "Point 50 50"]
  show ?thesis
    by (simp add: eraserState_simps demo_distances demoSegment_def)
qed

text \<open>
  Claim C4. With a non-zero scale, \<open>eraseAt\<close> removes a brush path of two or more
  points exactly when some pair of consecutive points spans a segment within the eraser
  radius of the erase point, removes a path of one point exactly when that point is
  within the radius, and keeps an empty path. Every shape of the store afterwards is a
  shape of the store before: a path is deleted whole or not at all.
\<close>

theorem erase_brush_path:
  assumes "scale st \<noteq> 0"
    and "BrushPath pts col w \<in> set (shapes st)"
  shows "(2 \<le> length pts \<longrightarrow>
            (BrushPath pts col w \<notin> set (shapes (eraseAt st wp)))
              = (\<exists>i. Suc i < length pts
                   \<and> segmentDistance wp (pts ! i) (pts ! Suc i) \<le> eraserSizePx st / scale st))
    \<and> (length pts = 1 \<longrightarrow>
            (BrushPath pts col w \<notin> set (shapes (eraseAt st wp)))
              = (pointDistance wp (pts ! 0) \<le> eraserSizePx st / scale st))
    \<and> (length pts = 0 \<longrightarrow> BrushPath pts col w \<in> set (shapes (eraseAt st wp)))
    \<and> set (shapes (eraseAt st wp)) \<subseteq> set (shapes st)"
proof -
  have "2 \<le> length pts \<Longrightarrow>
      withinRadius wp r (BrushPath pts col w)
        = (\<exists>i. Suc i < length pts \<and> segmentDistance wp (pts ! i) (pts ! Suc i) \<le> r)" for r
    by (simp add: list_ex_consecutive)
  moreover have "length pts = 1 \<Longrightarrow>
      withinRadius wp r (BrushPath pts col w) = (pointDistance wp (pts ! 0) \<le> r)" for r
    by (cases pts) simp_all
  moreover have "length pts = 0 \<Longrightarrow> \<not> withinRadius wp r (BrushPath pts col w)" for r
    by simp
  ultimately show ?thesis
    using assms(2) by (auto simp add: eraseAt_shapes)
qed

theorem erase_brush_path_witness:
  "scale (eraserState [demoEmptyPath, demoDot, demoPath]) \<noteq> 0
   \<and> set [demoEmptyPath, demoDot, demoPath]
       = set (shapes (eraserState [demoEmptyPath, demoDot, demoPath]))
   \<and> demoPath \<notin> set (shapes (eraseAt (eraserState [demoEmptyPath, demoDot, demoPath]) (Point 150 5)))
   \<and> demoDot \<notin> set (shapes (eraseAt (eraserState [demoEmptyPath, demoDot, demoPath]) (Point 150 5)))
   \<and> demoEmptyPath \<in> set (shapes (eraseAt (eraserState [demoEmptyPath, demoDot, demoPath]) (Point 150 5)))
   \<and> demoDot \<in> set (shapes (eraseAt (eraserState [demoEmptyPath, demoDot, demoPath]) (Point 150 50)))"
proof -
  let ?st = "eraserState [demoEmptyPath, demoDot, demoPath]"
  have nz: "scale ?st \<noteq> 0" by (simp add: eraserState_simps)
  have m0: "BrushPath [] ''#111827'' 2 \<in> set (shapes ?st)"
    and m1: "BrushPath [Point 150 5] ''#111827'' 2 \<in> set (shapes ?st)"
    and m3: "BrushPath [Point 0 0, Point 100 0, Point 200 0] ''#111827'' 2 \<in> set (shapes ?st)"
    by (simp_all add: eraserState_simps demoEmptyPath_def demoDot_def demoPath_def)
  have d: "segmentDistance (Point 150 5) (Point 100 0) (Point 200 0) = 5"
    by (simp add: segmentDistance_def pointDistance_def segmentPoint_def projectionParam_def
        clampUnit_def)
  have "Suc 1 < length [Point 0 0, Point 100 0, Point 200 0]
      \<and> segmentDistance (Point 150 5) ([Point 0 0, Point 100 0, Point 200 0] ! 1)
          ([Point 0 0, Point 100 0, Point 200 0] ! Suc 1) \<le> eraserSizePx ?st / scale ?st"
    by (simp add: d eraserState_simps)
  then have ex: "\<exists>i. Suc i < length [Point 0 0, Point 100 0, Point 200 0]
      \<and> segmentDistance (Point 150 5) ([Point 0 0, Point 100 0, Point 200 0] ! i)
          ([Point 0 0, Point 100 0, Point 200 0] ! Suc i) \<le> eraserSizePx ?st / scale ?st"
    by (rule exI)
  have p3: "demoPath \<notin> set (shapes (eraseAt ?st (Point 150 5)))"
    using erase_brush_path [OF nz m3, of "Point 150 5"] ex by (simp add: demoPath_def)
  have p1: "demoDot \<notin> set (shapes (eraseAt ?st (Point 150 5)))"
    using erase_brush_path [OF nz m1, of "Point 150 5"]
    by (simp add: demoDot_def pointDistance_def eraserState_simps)
  have p1': "demoDot \<in> set (shapes (eraseAt ?st (Point 150 50)))"
    using erase_brush_path [OF nz m1, of "Point 150 50"]
    by (simp add: demoDot_def pointDistance_def eraserState_simps)
  have p0: "demoEmptyPath \<in> set (shapes (eraseAt ?st (Point 150 5)))"
    using erase_brush_path [OF nz m0, of "Point 150 5"] by (simp add: demoEmptyPath_def)
  show ?thesis using nz p3 p1 p1' p0 by (simp add: eraserState_simps)
qed

text \<open>
  Claim C10. When no shape of the store passes within the eraser radius of the erase
  point, \<open>eraseAt\<close> leaves the shape list and the dirty flag as they were and still
  empties the redo slot.
\<close>

theorem erase_nothing_clears_redo:
  assumes "scale st \<noteq> 0"
    and "\<forall>s \<in> set (shapes st). \<not> withinRadius wp (eraserSizePx st / scale st) s"
  shows "shapes (eraseAt st wp) = shapes st
    \<and> isDirty (eraseAt st wp) = isDirty st
    \<and> lastUndoneShape (eraseAt st wp) = None"
  using assms(2)
  by (simp add: eraseAt_shapes eraseAt_isDirty eraseAt_lastUndoneShape list_ex_iff)

theorem erase_nothing_clears_redo_witness:
  "scale ((eraserState [demoSegment])\<lparr> lastUndoneShape := Some demoDot \<rparr>) \<noteq> 0
   \<and> \<not> withinRadius (Point 50 50) 10 demoSegment
   \<and> lastUndoneShape ((eraserState [demoSegment])\<lparr> lastUndoneShape := Some demoDot \<rparr>) = Some demoDot
   \<and> shapes (eraseAt ((eraserState [demoSegment])\<lparr> lastUndoneShape := Some demoDot \<rparr>) (Point 50 50))
       = [demoSegment]
   \<and> isDirty (eraseAt ((eraserState [demoSegment])\<lparr> lastUndoneShape := Some demoDot \<rparr>) (Point 50 50))
       = False
   \<and> lastUndoneShape (eraseAt ((eraserState [demoSegment])\<lparr> lastUndoneShape := Some demoDot \<rparr>)
        (Point 50 50)) = None"
proof -
  let ?st = "(eraserState [demoSegment])\<lparr> lastUndoneShape := Some demoDot \<rparr>"
  have nz: "scale ?st \<noteq> 0" by (simp add: eraserState_simps)
  have far: "\<not> withinRadius (Point 50 50) 10 demoSegment"
    by (simp add: demoSegment_def demo_distances)
  have none: "\<forall>s \<in> set (shapes ?st). \<not> withinRadius (Point 50 50) (eraserSizePx ?st / scale ?st) s"
    using far by (simp add: eraserState_simps)
  from erase_nothing_clears_redo [OF nz none] nz far show ?thesis
    by (simp add: eraserState_simps)
qed

section \<open>Endpoint snapping\<close>

lemma endpointsOf_shapeEndpoints: "endpointsOf s = shapeEndpoints s"
  by (cases s) (simp_all add: hd_conv_nth last_conv_nth)

lemma collectEndpoints_concat: "collectEndpoints ss = concat (map shapeEndpoints ss)"
  by (induction ss) (simp_all add: endpointsOf_shapeEndpoints)

lemma screenDistance_sqrt: "screenDistance st p q = sqrt (screenD2 st p q)"
  by (simp add: screenDistance_def pointDistance_def screenD2_def Let_def power2_eq_square)

lemma screenDistance_le_tol: "screenDistance st p q \<le> 12 \<longleftrightarrow> screenD2 st p q \<le> tolSq"
proof -
  have "sqrt (screenD2 st p q) \<le> sqrt 144 \<longleftrightarrow> screenD2 st p q \<le> 144"
    by (rule real_sqrt_le_iff)
  then show ?thesis
    by (simp add: screenDistance_sqrt tolSq_def tolPx_def)
qed

lemma screenDistance_le_iff:
  "screenDistance st p q \<le> screenDistance st p q' \<longleftrightarrow> screenD2 st p q \<le> screenD2 st p q'"
  by (simp add: screenDistance_sqrt)

lemma snapLoop_None:
  "snapLoop st world eps best = None \<longleftrightarrow>
     best = None \<and> (\<forall>ep \<in> set eps. \<not> screenD2 st world ep \<le> tolSq)"
  by (induction eps arbitrary: best) (auto simp add: Let_def)

lemma snapLoop_Some:
  assumes "bestOk st world best"
    and "snapLoop st world eps best = Some (q, d)"
  shows "d = screenD2 st world q \<and> d \<le> tolSq
    \<and> (q \<in> set eps \<or> best = Some (q, d))
    \<and> (\<forall>ep \<in> set eps. screenD2 st world ep \<le> tolSq \<longrightarrow> d \<le> screenD2 st world ep)
    \<and> (\<forall>b. best = Some b \<longrightarrow> d \<le> snd b)"
  using assms
proof (induction eps arbitrary: best)
  case Nil
  then show ?case by (simp add: bestOk_def)
next
  case (Cons ep eps)
  let ?d2 = "screenD2 st world ep"
  show ?case
  proof (cases "?d2 \<le> tolSq \<and> (case best of None \<Rightarrow> True | Some bst \<Rightarrow> ?d2 < snd bst)")
    case True
    then have run: "snapLoop st world eps (Some (ep, ?d2)) = Some (q, d)"
      using Cons.prems(2) by (simp add: Let_def)
    have ok: "bestOk st world (Some (ep, ?d2))"
      using True by (simp add: bestOk_def)
    note ih = Cons.IH [OF ok run]
    from ih have a: "d = screenD2 st world q" "d \<le> tolSq" by blast+
    from ih have b: "q \<in> set (ep # eps)" by auto
    from ih have c: "\<forall>e \<in> set eps. screenD2 st world e \<le> tolSq \<longrightarrow> d \<le> screenD2 st world e"
      by blast
    from ih have le: "d \<le> ?d2" by simp
    have e: "d \<le> snd b" if "best = Some b" for b
      using True le that by simp
    from a b c le e show ?thesis by simp
  next
    case False
    have run: "snapLoop st world eps best = Some (q, d)"
      using Cons.prems(2) by (simp only: snapLoop.simps Let_def if_not_P [OF False])
    note ih = Cons.IH [OF Cons.prems(1) run]
    have here: "d \<le> ?d2" if le: "?d2 \<le> tolSq"
    proof (cases best)
      case None
      with False le show ?thesis by simp
    next
      case (Some b)
      with False le have "snd b \<le> ?d2" by simp
      moreover from ih Some have "d \<le> snd b" by simp
      ultimately show ?thesis by simp
    qed
    from ih have "d = screenD2 st world q" "d \<le> tolSq"
      "q \<in> set (ep # eps) \<or> best = Some (q, d)"
      "\<forall>e \<in> set eps. screenD2 st world e \<le> tolSq \<longrightarrow> d \<le> screenD2 st world e"
      "\<forall>b. best = Some b \<longrightarrow> d \<le> snd b"
      by auto
    with here show ?thesis by simp
  qed
qed

text \<open>
  Claim C5. \<open>snapToEndpoints\<close> looks at the endpoints of all shapes (start and end of a
  segment, first and last point of a non-empty brush path). It returns no snap exactly
  when every endpoint is farther than 12 pixels from the candidate on the screen, and
  otherwise an endpoint within 12 pixels whose screen distance to the candidate is
  minimal among all endpoints.
\<close>

theorem snap_to_endpoints:
  "getAllEndpoints st = concat (map shapeEndpoints (shapes st))
   \<and> (snapToEndpoints st world = None)
       = (\<forall>ep \<in> set (getAllEndpoints st). 12 < screenDistance st world ep)
   \<and> (snapToEndpoints st world = Some q \<longrightarrow>
         q \<in> set (getAllEndpoints st)
         \<and> screenDistance st world q \<le> 12
         \<and> (\<forall>ep \<in> set (getAllEndpoints st).
               screenDistance st world q \<le> screenDistance st world ep))"
proof (intro conjI impI)
  show "getAllEndpoints st = concat (map shapeEndpoints (shapes st))"
    by (simp add: getAllEndpoints_def collectEndpoints_concat)
next
  have "(snapToEndpoints st world = None)
      = (snapLoop st world (getAllEndpoints st) None = None)"
    by (simp add: snapToEndpoints_def split: option.splits)
  also have "\<dots> = (\<forall>ep \<in> set (getAllEndpoints st). \<not> screenD2 st world ep \<le> tolSq)"
    by (simp add: snapLoop_None)
  also have "\<dots> = (\<forall>ep \<in> set (getAllEndpoints st). 12 < screenDistance st world ep)"
    by (simp add: screenDistance_le_tol [symmetric] not_le)
  finally show "(snapToEndpoints st world = None)
      = (\<forall>ep \<in> set (getAllEndpoints st). 12 < screenDistance st world ep)" .
next
  assume "snapToEndpoints st world = Some q"
  then obtain d where run: "snapLoop st world (getAllEndpoints st) None = Some (q, d)"
    by (auto simp add: snapToEndpoints_def split: option.splits)
  have ok: "bestOk st world None"
    by (simp add: bestOk_def)
  note r = snapLoop_Some [OF ok run]
  from r have d: "d = screenD2 st world q" by blast
  from r have tol: "d \<le> tolSq" by blast
  from r have mem: "q \<in> set (getAllEndpoints st)" by blast
  from r have least: "\<forall>ep \<in> set (getAllEndpoints st).
      screenD2 st world ep \<le> tolSq \<longrightarrow> d \<le> screenD2 st world ep" by blast
  have all: "screenD2 st world q \<le> screenD2 st world ep" if "ep \<in> set (getAllEndpoints st)" for ep
  proof (cases "screenD2 st world ep \<le> tolSq")
    case True
    with least that d show ?thesis by simp
  next
    case False
    with tol d show ?thesis by simp
  qed
  show "q \<in> set (getAllEndpoints st)"
    by (rule mem)
  show "screenDistance st world q \<le> 12"
    using tol d by (simp add: screenDistance_le_tol)
  show "\<forall>ep \<in> set (getAllEndpoints st). screenDistance st world q \<le> screenDistance st world ep"
    using all by (simp add: screenDistance_le_iff)
qed

lemma snapState_distance:
  "screenDistance (snapState ss) (Point 0 0) (Point a b) = sqrt (a\<^sup>2 + b\<^sup>2)"
  by (simp add: screenDistance_def pointDistance_def worldToScreen_def snapState_def initialState_def)

theorem snap_to_endpoints_witness:
  "getAllEndpoints (snapState [Segment (Point 3 4) (Point 0 20) solid [] 2])
     = [Point 3 4, Point 0 20]
   \<and> screenDistance (snapState [Segment (Point 3 4) (Point 0 20) solid [] 2]) (Point 0 0) (Point 3 4) = 5
   \<and> screenDistance (snapState [Segment (Point 3 4) (Point 0 20) solid [] 2]) (Point 0 0) (Point 0 20) = 20
   \<and> snapToEndpoints (snapState [Segment (Point 3 4) (Point 0 20) solid [] 2]) (Point 0 0)
       = Some (Point 3 4)
   \<and> screenDistance (snapState [Segment (Point 12 16) (Point 0 20) solid [] 2]) (Point 0 0) (Point 12 16) = 20
   \<and> snapToEndpoints (snapState [Segment (Point 12 16) (Point 0 20) solid [] 2]) (Point 0 0) = None"
proof -
  let ?near = "snapState [Segment (Point 3 4) (Point 0 20) solid [] 2]"
  let ?far = "snapState [Segment (Point 12 16) (Point 0 20) solid [] 2]"
  have d1: "screenDistance ?near (Point 0 0) (Point 3 4) = 5"
    and d2: "screenDistance ?near (Point 0 0) (Point 0 20) = 20"
    and d3: "screenDistance ?far (Point 0 0) (Point 12 16) = 20"
    and d4: "screenDistance ?far (Point 0 0) (Point 0 20) = 20"
    by (simp_all add: snapState_distance)
  note f = snap_to_endpoints [of ?far "Point 0 0"]
  have eps: "getAllEndpoints ?near = [Point 3 4, Point 0 20]"
    using snap_to_endpoints [of ?near] by (simp add: snapState_def)
  have epsf: "getAllEndpoints ?far = [Point 12 16, Point 0 20]"
    using f by (simp add: snapState_def)
  have "snapToEndpoints ?near (Point 0 0) \<noteq> None"
    using snap_to_endpoints [of ?near "Point 0 0"] by (simp add: eps d1)
  then obtain q where q: "snapToEndpoints ?near (Point 0 0) = Some q"
    by blast
  with snap_to_endpoints [of ?near "Point 0 0" q]
  have "q \<in> set (getAllEndpoints ?near)" "screenDistance ?near (Point 0 0) q \<le> 12"
    by blast+
  then have "q = Point 3 4"
    using d2 by (auto simp add: eps)
  with q have near: "snapToEndpoints ?near (Point 0 0) = Some (Point 3 4)"
    by simp
  have far: "snapToEndpoints ?far (Point 0 0) = None"
    using f by (simp add: epsf d3 d4)
  show ?thesis
    using eps d1 d2 d3 near far by simp
qed

section \<open>Undo and redo\<close>

lemma undo_nonempty:
  assumes "shapes st \<noteq> []"
  shows "undo st = st\<lparr> lastUndoneShape := Some (last (shapes st)), isDirty := True,
                        shapes := butlast (shapes st) \<rparr>"
  using assms by (simp add: undo_def Let_def last_conv_nth butlast_conv_take)

lemma undo_fields:
  "isErasing (undo st) = isErasing st" "isPanning (undo st) = isPanning st"
  "isDrawing (undo st) = isDrawing st" "currentTool (undo st) = currentTool st"
  "startPoint (undo st) = startPoint st"
  by (simp_all add: undo_def Let_def)

lemma commit_on_pointer_up:
  assumes "gestureCompletes st"
  shows "\<exists>c. handleMouseUp st p = st\<lparr> shapes := shapes st @ [c], isDirty := True,
            lastUndoneShape := None, currentPath := None, isDrawing := False \<rparr>
         \<or> handleMouseUp st p = st\<lparr> shapes := shapes st @ [c], isDirty := True,
            lastUndoneShape := None, isDrawing := False, startPoint := None,
            previewEnd := None, snapPreview := None \<rparr>"
proof (cases "currentTool st = Some brush")
  case True
  with assms show ?thesis
    by (auto simp add: gestureCompletes_def handleMouseUp_def)
next
  case False
  with assms obtain sty sp where "currentTool st = Some (line sty)" "startPoint st = Some sp"
    by (auto simp add: gestureCompletes_def split: option.splits tool.splits)
  with assms show ?thesis
    by (auto simp add: gestureCompletes_def handleMouseUp_def Let_def)
qed

lemma commit_shapes:
  assumes "gestureCompletes st"
  shows "\<exists>c. shapes (handleMouseUp st p) = shapes st @ [c]"
  using commit_on_pointer_up [OF assms, of p] by auto

lemma commit_clears_redo:
  assumes "gestureCompletes st"
  shows "lastUndoneShape (handleMouseUp st p) = None"
  using commit_on_pointer_up [OF assms, of p] by auto

lemma commit_isDirty:
  assumes "gestureCompletes st"
  shows "isDirty (handleMouseUp st p)"
  using commit_on_pointer_up [OF assms, of p] by auto

lemma pointer_down_starts_gesture:
  assumes "readyToDraw st"
  shows "gestureCompletes (handleMouseDown st p)
    \<and> shapes (handleMouseDown st p) = shapes st
    \<and> lastUndoneShape (handleMouseDown st p) = lastUndoneShape st"
  using assms
  by (auto simp add: readyToDraw_def gestureCompletes_def handleMouseDown_def Let_def
      split: option.splits tool.splits)

lemma readyToDraw_undo: "readyToDraw (undo st) = readyToDraw st"
  by (simp add: readyToDraw_def undo_fields)

text \<open>
  Claim C7. Undo on a non-empty store removes the last shape, puts it into the redo slot
  and marks the page dirty. Redo with a shape in the slot appends it to the store,
  empties the slot and marks the page dirty; redo with an empty slot changes nothing. A
  pointer-up that completes a segment or brush gesture appends one shape and empties the
  slot, so a redo after it changes nothing. From the store \<open>[A, B]\<close>: undo gives \<open>[A]\<close>
  with \<open>B\<close> in the slot, redo gives \<open>[A, B]\<close> with the slot empty, and drawing a shape
  after the undo makes a following redo change nothing.
\<close>

theorem undo_redo:
  "(shapes st \<noteq> [] \<longrightarrow>
      shapes (undo st) = butlast (shapes st)
      \<and> lastUndoneShape (undo st) = Some (last (shapes st))
      \<and> isDirty (undo st))
   \<and> (lastUndoneShape st = Some s \<longrightarrow>
        shapes (redo st) = shapes st @ [s]
        \<and> lastUndoneShape (redo st) = None
        \<and> isDirty (redo st))
   \<and> (lastUndoneShape st = None \<longrightarrow> redo st = st)
   \<and> (gestureCompletes st \<longrightarrow>
        (\<exists>c. shapes (handleMouseUp st p) = shapes st @ [c])
        \<and> lastUndoneShape (handleMouseUp st p) = None
        \<and> redo (handleMouseUp st p) = handleMouseUp st p)
   \<and> (shapes st = [A, B] \<longrightarrow>
        shapes (undo st) = [A]
        \<and> lastUndoneShape (undo st) = Some B
        \<and> shapes (redo (undo st)) = [A, B]
        \<and> lastUndoneShape (redo (undo st)) = None
        \<and> (readyToDraw st \<longrightarrow>
             (\<exists>C. shapes (run st [Undo, MouseDown p, MouseUp q]) = [A, C])
             \<and> run st [Undo, MouseDown p, MouseUp q, Redo] = run st [Undo, MouseDown p, MouseUp q]))"
proof (intro conjI impI)
  assume "shapes st \<noteq> []"
  then show "shapes (undo st) = butlast (shapes st)"
    "lastUndoneShape (undo st) = Some (last (shapes st))" "isDirty (undo st)"
    by (simp_all add: undo_nonempty)
next
  assume "lastUndoneShape st = Some s"
  then show "shapes (redo st) = shapes st @ [s]" "lastUndoneShape (redo st) = None"
    "isDirty (redo st)"
    by (simp_all add: redo_def)
next
  assume "lastUndoneShape st = None"
  then show "redo st = st" by (simp add: redo_def)
next
  assume g: "gestureCompletes st"
  show "\<exists>c. shapes (handleMouseUp st p) = shapes st @ [c]"
    by (rule commit_shapes [OF g])
  show "lastUndoneShape (handleMouseUp st p) = None"
    by (rule commit_clears_redo [OF g])
  then show "redo (handleMouseUp st p) = handleMouseUp st p"
    by (simp add: redo_def)
next
  assume ab: "shapes st = [A, B]"
  then have u: "undo st = st\<lparr> lastUndoneShape := Some B, isDirty := True, shapes := [A] \<rparr>"
    by (simp add: undo_nonempty)
  show "shapes (undo st) = [A]" "lastUndoneShape (undo st) = Some B"
    "shapes (redo (undo st)) = [A, B]" "lastUndoneShape (redo (undo st)) = None"
    by (simp_all add: u redo_def)
  assume r: "readyToDraw st"
  let ?d = "handleMouseDown (undo st) p"
  have rd: "readyToDraw (undo st)"
    using r by (simp add: readyToDraw_undo)
  have su: "shapes (undo st) = [A]"
    by (simp add: u)
  have d: "gestureCompletes ?d" "shapes ?d = [A]"
    using pointer_down_starts_gesture [OF rd, of p] su by simp_all
  have run: "run st [Undo, MouseDown p, MouseUp q] = handleMouseUp ?d q"
    by simp
  show "\<exists>C. shapes (run st [Undo, MouseDown p, MouseUp q]) = [A, C]"
    using commit_shapes [OF d(1), of q] d(2) by (simp only: run) simp
  have "lastUndoneShape (handleMouseUp ?d q) = None"
    by (rule commit_clears_redo [OF d(1)])
  then show "run st [Undo, MouseDown p, MouseUp q, Redo] = run st [Undo, MouseDown p, MouseUp q]"
    by (simp add: redo_def)
qed

theorem undo_redo_witness:
  "shapes historyState = [demoSegment, demoDot]
   \<and> readyToDraw historyState
   \<and> shapes (undo historyState) = [demoSegment]
   \<and> lastUndoneShape (undo historyState) = Some demoDot
   \<and> isDirty (undo historyState)
   \<and> shapes (redo (undo historyState)) = [demoSegment, demoDot]
   \<and> lastUndoneShape (redo (undo historyState)) = None
   \<and> isDirty (redo (undo historyState))
   \<and> lastUndoneShape historyState = None
   \<and> redo historyState = historyState
   \<and> gestureCompletes (handleMouseDown historyState (Point 1 1))
   \<and> lastUndoneShape (handleMouseUp (handleMouseDown historyState (Point 1 1)) (Point 9 9)) = None
   \<and> run historyState [Undo, MouseDown (Point 1 1), MouseUp (Point 9 9), Redo]
       = run historyState [Undo, MouseDown (Point 1 1), MouseUp (Point 9 9)]"
proof -
  have sh: "shapes historyState = [demoSegment, demoDot]"
    and rd: "readyToDraw historyState"
    and lu: "lastUndoneShape historyState = None"
    by (simp_all add: historyState_def initialState_def readyToDraw_def)
  note h = undo_redo [where st = historyState and A = demoSegment and B = demoDot
      and p = "Point 1 1" and q = "Point 9 9"]
  from h sh have u1: "shapes (undo historyState) = [demoSegment]"
    and u2: "lastUndoneShape (undo historyState) = Some demoDot"
    and u3: "isDirty (undo historyState)"
    and r0: "redo historyState = historyState"
    by (simp_all add: lu)
  from h sh rd
  have sc: "run historyState [Undo, MouseDown (Point 1 1), MouseUp (Point 9 9), Redo]
      = run historyState [Undo, MouseDown (Point 1 1), MouseUp (Point 9 9)]"
    by blast
  note u = undo_redo [where st = "undo historyState" and s = demoDot]
  from u u1 u2 have r1: "shapes (redo (undo historyState)) = [demoSegment, demoDot]"
    and r2: "lastUndoneShape (redo (undo historyState)) = None"
    and r3: "isDirty (redo (undo historyState))"
    by simp_all
  have g: "gestureCompletes (handleMouseDown historyState (Point 1 1))"
    using pointer_down_starts_gesture [OF rd] by simp
  from undo_redo [where st = "handleMouseDown historyState (Point 1 1)" and p = "Point 9 9"] g
  have c: "lastUndoneShape (handleMouseUp (handleMouseDown historyState (Point 1 1)) (Point 9 9)) = None"
    by blast
  from sh rd u1 u2 u3 r1 r2 r3 lu r0 g c sc show ?thesis
    by (simp only: simp_thms)
qed

section \<open>The scale range\<close>

lemma eraseAt_view: "scale (eraseAt st wp) = scale st" "pages (eraseAt st wp) = pages st"
  "offset (eraseAt st wp) = offset st"
  by (simp_all add: eraseAt_def Let_def case_prod_beta)

lemma handleMouseDown_view:
  "scale (handleMouseDown st p) = scale st" "pages (handleMouseDown st p) = pages st"
  by (simp_all add: handleMouseDown_def Let_def eraseAt_view)

lemma handleMouseMove_view:
  "scale (handleMouseMove st p) = scale st" "pages (handleMouseMove st p) = pages st"
  by (simp_all add: handleMouseMove_def Let_def eraseAt_view split: option.splits)

lemma handleMouseUp_view:
  "scale (handleMouseUp st p) = scale st" "pages (handleMouseUp st p) = pages st"
  by (simp_all add: handleMouseUp_def Let_def split: option.splits tool.splits)

lemma handleMouseLeave_view:
  "scale (handleMouseLeave st) = scale st" "pages (handleMouseLeave st) = pages st"
  by (simp_all add: handleMouseLeave_def Let_def)

lemma handleWheel_scale: "scale (handleWheel st deltaY p) = wheelScale (scale st) deltaY"
  by (simp add: handleWheel_def Let_def)

lemma handleWheel_pages: "pages (handleWheel st deltaY p) = pages st"
  by (simp add: handleWheel_def Let_def)

lemma history_view:
  "scale (undo st) = scale st" "pages (undo st) = pages st"
  "scale (redo st) = scale st" "pages (redo st) = pages st"
  "scale (clearAll st) = scale st" "pages (clearAll st) = pages st"
  "scale (keyEscape st) = scale st" "pages (keyEscape st) = pages st"
  "scale (toggleTool st t) = scale st" "pages (toggleTool st t) = pages st"
  by (simp_all add: undo_def redo_def clearAll_def keyEscape_def toggleTool_def Let_def
      split: option.splits)

lemma pageScalesInRange_Cons:
  "pageScalesInRange (p # ps) \<longleftrightarrow>
     (case page_scale p of None \<Rightarrow> True | Some s \<Rightarrow> scaleInRange s) \<and> pageScalesInRange ps"
  by (simp add: pageScalesInRange_def)

lemma pageScalesInRange_member:
  assumes "pageScalesInRange ps" and "p \<in> set ps"
  shows "scaleInRange (scaleOr1 (page_scale p))"
    and "page_scale p = Some s \<Longrightarrow> scaleInRange s"
  using assms
  by (auto simp add: pageScalesInRange_def list_all_iff scaleOr1_def scaleInRange_def
      split: option.splits)

lemma find_member: "find P xs = Some x \<Longrightarrow> x \<in> set xs"
  by (induction xs) (auto split: if_splits)

lemma pageScalesInRange_filter: "pageScalesInRange ps \<Longrightarrow> pageScalesInRange (filter P ps)"
  by (simp add: pageScalesInRange_def list_all_iff)

lemma freshPage_ok: "pageScalesInRange [freshPage gid nm now]"
  by (simp add: pageScalesInRange_def freshPage_def scaleInRange_def)

lemma commitSave_invariant:
  assumes "scaleInvariant st"
  shows "scaleInvariant (commitSave st now)"
  using assms
  by (auto simp add: scaleInvariant_def commitSave_def pageScalesInRange_def list_all_iff)

lemma createNewPage_invariant:
  assumes "scaleInvariant st"
  shows "scaleInvariant (createNewPage st nm gid now)"
  using assms
  by (auto simp add: scaleInvariant_def createNewPage_def pageScalesInRange_def freshPage_def
      scaleInRange_def split: option.splits)

lemma saveAsNewPage_invariant:
  assumes "scaleInvariant st"
  shows "scaleInvariant (saveAsNewPage st nm gid now)"
  using assms
  by (auto simp add: scaleInvariant_def saveAsNewPage_def pageScalesInRange_def Let_def
      split: option.splits)

lemma renameCurrentPage_invariant:
  assumes "scaleInvariant st"
  shows "scaleInvariant (renameCurrentPage st nm now)"
  using assms
  by (auto simp add: scaleInvariant_def renameCurrentPage_def pageScalesInRange_def list_all_iff
      split: option.splits)

lemma activatePage_invariant:
  assumes "pageScalesInRange (pages st)" and "page \<in> set (pages st)"
  shows "scaleInvariant (activatePage st page)"
  using pageScalesInRange_member(1) [OF assms] assms(1)
  by (simp add: scaleInvariant_def activatePage_def)

lemma deleteCurrentPage_invariant:
  assumes "scaleInvariant st"
  shows "scaleInvariant (deleteCurrentPage st ok gid now)"
proof (cases "filter (\<lambda>p. Some (page_id p) \<noteq> currentPageId st) (pages st)")
  case Nil
  then show ?thesis
    using assms freshPage_ok [of gid "''Trang 1''" now]
    by (simp add: deleteCurrentPage_def scaleInvariant_def scaleInRange_def)
next
  case (Cons page rest)
  have "pageScalesInRange (page # rest)"
    using assms pageScalesInRange_filter [of "pages st"] Cons [symmetric]
    by (simp add: scaleInvariant_def)
  then have "scaleInvariant (activatePage (st\<lparr> pages := page # rest \<rparr>) page)"
    by (intro activatePage_invariant) simp_all
  then show ?thesis
    using assms Cons by (simp add: deleteCurrentPage_def)
qed

lemma activatePage_invariant_scale:
  assumes "scaleInvariant st1" and "scaleInRange (scaleOr1 (page_scale page))"
  shows "scaleInvariant (activatePage st1 page)"
  using assms by (simp add: scaleInvariant_def activatePage_def)

lemma changeCurrentPage_invariant:
  assumes "scaleInvariant st"
  shows "scaleInvariant (changeCurrentPage st i ok now)"
proof (cases "find (\<lambda>p. page_id p = i) (pages st)")
  case None
  with assms show ?thesis by (simp add: changeCurrentPage_def)
next
  case (Some page)
  then have mem: "page \<in> set (pages st)"
    by (rule find_member)
  define st1 where
    "st1 = (if isDirty st \<and> truthyStr (currentPageId st) \<and> ok then commitSave st now else st)"
  have inv1: "scaleInvariant st1"
    using assms by (simp add: st1_def commitSave_invariant)
  have "scaleInRange (scaleOr1 (page_scale page))"
    using pageScalesInRange_member(1) [OF _ mem] assms by (simp add: scaleInvariant_def)
  then have act: "scaleInvariant (activatePage st1 page)"
    by (rule activatePage_invariant_scale [OF inv1])
  have "changeCurrentPage st i ok now
      = (if Some i = currentPageId st then st else activatePage st1 page)"
    unfolding changeCurrentPage_def Let_def st1_def using Some by simp
  with act assms show ?thesis by simp
qed

lemma loadPages_invariant:
  assumes "scaleInvariant st" and "storedScalesInRange (LoadPages raw cur gid now)"
  shows "scaleInvariant (loadPages st raw cur gid now)"
proof (cases "raw = ParseError")
  case True
  with assms show ?thesis by (simp add: loadPages_def)
next
  case False
  define parsed where "parsed = (case raw of Parsed ps \<Rightarrow> ps | _ \<Rightarrow> [])"
  define loaded where
    "loaded = (if length parsed = 0 then [freshPage gid ''Trang 1'' now] else parsed)"
  define chosen where
    "chosen = (if truthyStr cur \<and> find (\<lambda>p. Some (page_id p) = cur) loaded \<noteq> None
               then orElse cur [] else page_id (loaded ! 0))"
  have parsed_ok: "pageScalesInRange parsed"
    using assms(2) by (cases raw) (simp_all add: parsed_def pageScalesInRange_def)
  have loaded_ok: "pageScalesInRange loaded"
    using parsed_ok freshPage_ok by (simp add: loaded_def)
  have unfold: "loadPages st raw cur gid now =
      (case find (\<lambda>p. page_id p = chosen) loaded of
         None \<Rightarrow> st
       | Some page \<Rightarrow>
           st\<lparr> pages := loaded, currentPageId := Some chosen, shapes := page_shapes page,
                scale := (case page_scale page of None \<Rightarrow> scale st
                          | Some s \<Rightarrow> if s = 0 then scale st else s),
                offset := orElse (page_offset page) (offset st), isDirty := False \<rparr>)"
    unfolding loadPages_def Let_def parsed_def loaded_def chosen_def
    using False by (cases raw) simp_all
  show ?thesis
  proof (cases "find (\<lambda>p. page_id p = chosen) loaded")
    case None
    with unfold assms(1) show ?thesis by simp
  next
    case (Some page)
    then have mem: "page \<in> set loaded"
      by (rule find_member)
    have "scaleInRange (case page_scale page of None \<Rightarrow> scale st
                        | Some s \<Rightarrow> if s = 0 then scale st else s)"
      using pageScalesInRange_member(2) [OF loaded_ok mem] assms(1)
      by (simp add: scaleInvariant_def split: option.splits)
    with Some unfold loaded_ok show ?thesis
      by (simp add: scaleInvariant_def)
  qed
qed

lemma step_invariant:
  assumes "scaleInvariant st" and "storedScalesInRange e"
  shows "scaleInvariant (step st e)"
proof (cases e)
  case (Wheel deltaY p)
  with assms(1) show ?thesis
    by (simp add: scaleInvariant_def handleWheel_scale handleWheel_pages wheelScale_range)
next
  case (LoadPages raw cur gid now)
  with assms show ?thesis
    by (simp add: loadPages_invariant)
qed (use assms(1) in \<open>simp_all add: commitSave_invariant createNewPage_invariant
      saveAsNewPage_invariant renameCurrentPage_invariant deleteCurrentPage_invariant
      changeCurrentPage_invariant\<close>,
    simp_all add: scaleInvariant_def handleMouseDown_view handleMouseMove_view
      handleMouseUp_view handleMouseLeave_view history_view)

lemma run_invariant:
  assumes "scaleInvariant st" and "list_all storedScalesInRange es"
  shows "scaleInvariant (run st es)"
  using assms
proof (induction es arbitrary: st)
  case Nil
  then show ?case by simp
next
  case (Cons e es)
  from Cons.prems have "scaleInvariant (step st e)"
    by (simp add: step_invariant)
  with Cons.prems show ?case
    by (simp add: Cons.IH)
qed

text \<open>
  Claim C8, as amended. A wheel zoom always leaves the scale between 0.2 and 6.0. Page
  load, page switch and page deletion copy the stored scale of the page they activate
  without clamping it, so the scale stays between 0.2 and 6.0 along every sequence of
  operations only under a condition: the state starts with its scale and the scales of
  its pages in that range, and every page list read from the storage carries only
  scales in that range.
\<close>

theorem scale_stays_in_range:
  "scaleInRange (scale (handleWheel st deltaY p))
   \<and> (scaleInvariant st \<and> list_all storedScalesInRange es \<longrightarrow>
        scaleInvariant (run st es) \<and> scaleInRange (scale (run st es)))"
proof (intro conjI impI)
  show "scaleInRange (scale (handleWheel st deltaY p))"
    by (simp add: handleWheel_scale wheelScale_range)
next
  assume a: "scaleInvariant st \<and> list_all storedScalesInRange es"
  then show inv: "scaleInvariant (run st es)"
    by (simp add: run_invariant)
  then show "scaleInRange (scale (run st es))"
    by (simp add: scaleInvariant_def)
qed

lemma pageSession_stored: "list_all storedScalesInRange pageSession"
  by (simp add: pageSession_def pageScalesInRange_def storedPage_def scaleInRange_def)

lemma initialState_invariant: "scaleInvariant initialState"
  by (simp add: scaleInvariant_def initialState_def scaleInRange_def pageScalesInRange_def)

theorem scale_stays_in_range_witness:
  "scaleInvariant initialState
   \<and> list_all storedScalesInRange pageSession
   \<and> scaleInRange (scale (handleWheel initialState (- 10000) (Point 3 4)))
   \<and> scaleInvariant (run initialState pageSession)
   \<and> scaleInRange (scale (run initialState pageSession))"
  using scale_stays_in_range [of initialState "- 10000" "Point 3 4" pageSession]
    pageSession_stored initialState_invariant
  by simp

text \<open>
  The claim as stated fails: the mount effect takes the scale 10 of a stored page as it
  is.
\<close>

theorem scale_unclamped_on_load_counterexample:
  "scaleInRange (scale initialState)
   \<and> scale (run initialState [LoadPages (Parsed [storedPage ''a'' 10]) None ''g'' 0]) = 10
   \<and> \<not> scaleInRange (scale (run initialState [LoadPages (Parsed [storedPage ''a'' 10]) None ''g'' 0]))"
  by (simp add: initialState_def loadPages_def storedPage_def freshPage_def truthyStr_def
      scaleInRange_def Let_def)

section \<open>The dirty flag\<close>

lemma filter_changed: "filter P xs \<noteq> xs \<Longrightarrow> list_ex (\<lambda>x. \<not> P x) xs"
  by (induction xs) (auto split: if_splits)

lemma eraseAt_dirty_if_changed:
  assumes "shapes (eraseAt st wp) \<noteq> shapes st"
  shows "isDirty (eraseAt st wp)"
proof -
  from assms have "list_ex (\<lambda>s. \<not> \<not> withinRadius wp (eraserSizePx st / scale st) s) (shapes st)"
    unfolding eraseAt_shapes by (rule filter_changed)
  then show ?thesis
    by (simp add: eraseAt_isDirty)
qed

lemma eraseAt_dirty_with:
  assumes "shapes (eraseAt st1 wp) \<noteq> shapes st" and "shapes st1 = shapes st"
  shows "isDirty (eraseAt st1 wp)"
  using eraseAt_dirty_if_changed [of st1 wp] assms by simp

lemma handleMouseDown_dirty:
  assumes "shapes (handleMouseDown st p) \<noteq> shapes st"
  shows "isDirty (handleMouseDown st p)"
proof (cases "currentTool st = Some eraser")
  case True
  with assms show ?thesis
    by (simp add: handleMouseDown_def Let_def eraseAt_dirty_with)
next
  case False
  with assms show ?thesis
    by (simp add: handleMouseDown_def Let_def split: if_splits)
qed

lemma handleMouseMove_dirty:
  assumes "shapes (handleMouseMove st p) \<noteq> shapes st"
  shows "isDirty (handleMouseMove st p)"
proof (cases "isPanning st")
  case True
  with assms show ?thesis
    by (simp add: handleMouseMove_def Let_def split: option.splits)
next
  case np: False
  show ?thesis
  proof (cases "isErasing st \<and> currentTool st = Some eraser")
    case True
    with np assms show ?thesis
      by (simp add: handleMouseMove_def Let_def eraseAt_dirty_with)
  next
    case False
    with np assms show ?thesis
      by (auto simp add: handleMouseMove_def Let_def split: if_splits)
  qed
qed

lemma handleMouseUp_dirty:
  assumes "shapes (handleMouseUp st p) \<noteq> shapes st"
  shows "isDirty (handleMouseUp st p)"
  using assms
  by (auto simp add: handleMouseUp_def Let_def split: if_splits option.splits tool.splits)

lemma history_dirty:
  "shapes (undo st) \<noteq> shapes st \<Longrightarrow> isDirty (undo st)"
  "shapes (redo st) \<noteq> shapes st \<Longrightarrow> isDirty (redo st)"
  "isDirty (clearAll st)"
  by (auto simp add: undo_def redo_def clearAll_def Let_def split: if_splits option.splits)

lemma other_shapes:
  "shapes (handleMouseLeave st) = shapes st"
  "shapes (handleWheel st deltaY p) = shapes st"
  "shapes (keyEscape st) = shapes st"
  "shapes (toggleTool st t) = shapes st"
  by (simp_all add: handleMouseLeave_def handleWheel_def keyEscape_def toggleTool_def Let_def)

lemma editing_dirty:
  assumes "editingEvent e" and "shapes (step st e) \<noteq> shapes st"
  shows "isDirty (step st e)"
  using assms
  by (cases e)
    (simp_all add: handleMouseDown_dirty handleMouseMove_dirty handleMouseUp_dirty
      history_dirty other_shapes)

lemma handleWheel_isDirty: "isDirty (handleWheel st deltaY p) = isDirty st"
  by (simp add: handleWheel_def Let_def)

lemma pan_isDirty: "isPanning st \<Longrightarrow> isDirty (handleMouseMove st p) = isDirty st"
  by (simp add: handleMouseMove_def Let_def split: option.splits)

lemma commitSave_clean: "truthyStr (currentPageId st) \<Longrightarrow> \<not> isDirty (commitSave st now)"
  by (simp add: commitSave_def)

lemma activatePage_clean: "\<not> isDirty (activatePage st page)"
  by (simp add: activatePage_def)

lemma find_first_id:
  assumes "loaded \<noteq> []"
  shows "find (\<lambda>p. page_id p = page_id (loaded ! 0)) loaded \<noteq> None"
  using assms by (cases loaded) simp_all

lemma find_current_id:
  assumes "find (\<lambda>p. Some (page_id p) = cur) loaded \<noteq> None"
  shows "find (\<lambda>p. page_id p = orElse cur []) loaded \<noteq> None"
proof -
  from assms obtain p where "p \<in> set loaded" "Some (page_id p) = cur"
    by (auto simp add: find_None_iff)
  then have "\<exists>p \<in> set loaded. page_id p = orElse cur []"
    by (auto simp add: orElse_def)
  then show ?thesis
    by (auto simp add: find_None_iff)
qed

lemma loadPages_clean:
  assumes "raw \<noteq> ParseError"
  shows "\<not> isDirty (loadPages st raw cur gid now)"
proof -
  define parsed where "parsed = (case raw of Parsed ps \<Rightarrow> ps | _ \<Rightarrow> [])"
  define loaded where
    "loaded = (if length parsed = 0 then [freshPage gid ''Trang 1'' now] else parsed)"
  define chosen where
    "chosen = (if truthyStr cur \<and> find (\<lambda>p. Some (page_id p) = cur) loaded \<noteq> None
               then orElse cur [] else page_id (loaded ! 0))"
  have ne: "loaded \<noteq> []"
    by (simp add: loaded_def)
  have found: "find (\<lambda>p. page_id p = chosen) loaded \<noteq> None"
    unfolding chosen_def using find_first_id [OF ne] find_current_id [of cur loaded]
    by (simp split: if_splits)
  have unfold: "loadPages st raw cur gid now =
      (case find (\<lambda>p. page_id p = chosen) loaded of
         None \<Rightarrow> st
       | Some page \<Rightarrow>
           st\<lparr> pages := loaded, currentPageId := Some chosen, shapes := page_shapes page,
                scale := (case page_scale page of None \<Rightarrow> scale st
                          | Some s \<Rightarrow> if s = 0 then scale st else s),
                offset := orElse (page_offset page) (offset st), isDirty := False \<rparr>)"
    unfolding loadPages_def Let_def parsed_def loaded_def chosen_def
    using assms by (cases raw) simp_all
  from found obtain page where "find (\<lambda>p. page_id p = chosen) loaded = Some page"
    by blast
  with unfold show ?thesis by simp
qed

lemma changeCurrentPage_clean:
  assumes "Some i \<noteq> currentPageId st" and "find (\<lambda>p. page_id p = i) (pages st) \<noteq> None"
  shows "\<not> isDirty (changeCurrentPage st i ok now)"
  using assms by (auto simp add: changeCurrentPage_def Let_def activatePage_clean)

lemma deleteCurrentPage_clean:
  assumes "truthyStr (currentPageId st)" and "ok"
  shows "\<not> isDirty (deleteCurrentPage st ok gid now)"
  using assms by (simp add: deleteCurrentPage_def activatePage_clean split: list.splits)

lemma createNewPage_clean:
  assumes "nm = Some n" and "n \<noteq> []"
  shows "\<not> isDirty (createNewPage st nm gid now)"
  using assms by (simp add: createNewPage_def)

lemma saveAsNewPage_clean:
  assumes "truthyStr (currentPageId st)"
    and "find (\<lambda>p. Some (page_id p) = currentPageId st) (pages st) \<noteq> None"
    and "nm = Some n" and "n \<noteq> []"
  shows "\<not> isDirty (saveAsNewPage st nm gid now)"
  using assms by (auto simp add: saveAsNewPage_def Let_def)

text \<open>
  Claim C9, as amended. The dirty flag is true after every event of the drawing surface
  that changes the shape list (commit, undo, redo, clear, erase). Zoom and pan change
  scale and offset and leave the dirty flag as it is. The flag is false after a save
  when a current page is set, and after every activation of a document: page load, page
  switch, page deletion, page creation and saving as a new page.
\<close>

theorem dirty_flag:
  "(editingEvent e \<and> shapes (step st e) \<noteq> shapes st \<longrightarrow> isDirty (step st e))
   \<and> isDirty (handleWheel st deltaY p) = isDirty st
   \<and> (isPanning st \<longrightarrow> isDirty (handleMouseMove st p) = isDirty st)
   \<and> (truthyStr (currentPageId st) \<longrightarrow> \<not> isDirty (commitSave st now))
   \<and> (raw \<noteq> ParseError \<longrightarrow> \<not> isDirty (loadPages st raw cur gid now))
   \<and> (Some i \<noteq> currentPageId st \<and> find (\<lambda>pg. page_id pg = i) (pages st) \<noteq> None \<longrightarrow>
        \<not> isDirty (changeCurrentPage st i ok now))
   \<and> (truthyStr (currentPageId st) \<and> ok \<longrightarrow> \<not> isDirty (deleteCurrentPage st ok gid now))
   \<and> (nm = Some n \<and> n \<noteq> [] \<longrightarrow> \<not> isDirty (createNewPage st nm gid now))
   \<and> (truthyStr (currentPageId st)
        \<and> find (\<lambda>pg. Some (page_id pg) = currentPageId st) (pages st) \<noteq> None
        \<and> nm = Some n \<and> n \<noteq> [] \<longrightarrow> \<not> isDirty (saveAsNewPage st nm gid now))"
proof (intro conjI impI)
  show "isDirty (handleWheel st deltaY p) = isDirty st"
    by (rule handleWheel_isDirty)
next
  assume "editingEvent e \<and> shapes (step st e) \<noteq> shapes st"
  then show "isDirty (step st e)"
    by (simp add: editing_dirty)
next
  assume "isPanning st"
  then show "isDirty (handleMouseMove st p) = isDirty st"
    by (rule pan_isDirty)
next
  assume "truthyStr (currentPageId st)"
  then show "\<not> isDirty (commitSave st now)"
    by (rule commitSave_clean)
next
  assume "raw \<noteq> ParseError"
  then show "\<not> isDirty (loadPages st raw cur gid now)"
    by (rule loadPages_clean)
next
  assume "Some i \<noteq> currentPageId st \<and> find (\<lambda>pg. page_id pg = i) (pages st) \<noteq> None"
  then show "\<not> isDirty (changeCurrentPage st i ok now)"
    by (simp add: changeCurrentPage_clean)
next
  assume "truthyStr (currentPageId st) \<and> ok"
  then show "\<not> isDirty (deleteCurrentPage st ok gid now)"
    by (simp add: deleteCurrentPage_clean)
next
  assume "nm = Some n \<and> n \<noteq> []"
  then show "\<not> isDirty (createNewPage st nm gid now)"
    by (simp add: createNewPage_clean)
next
  assume "truthyStr (currentPageId st)
      \<and> find (\<lambda>pg. Some (page_id pg) = currentPageId st) (pages st) \<noteq> None
      \<and> nm = Some n \<and> n \<noteq> []"
  then show "\<not> isDirty (saveAsNewPage st nm gid now)"
    by (simp add: saveAsNewPage_clean)
qed

lemma pagedState_simps:
  "currentPageId pagedState = Some ''a''" "isDirty pagedState"
  "pages pagedState = [storedPage ''a'' 3, storedPage ''b'' 0.5]"
  by (simp_all add: pagedState_def initialState_def)

lemma storedPage_id: "page_id (storedPage i s) = i"
  by (simp add: storedPage_def freshPage_def)

theorem dirty_flag_witness:
  "editingEvent Undo
   \<and> shapes (step historyState Undo) \<noteq> shapes historyState
   \<and> isDirty (step historyState Undo)
   \<and> isDirty (handleWheel initialState (- 10000) (Point 3 4)) = isDirty initialState
   \<and> isPanning panningState
   \<and> isDirty (handleMouseMove panningState (Point 5 7)) = isDirty panningState
   \<and> isDirty pagedState
   \<and> truthyStr (currentPageId pagedState)
   \<and> \<not> isDirty (commitSave pagedState 1)
   \<and> \<not> isDirty (loadPages pagedState NoItem None ''g'' 0)
   \<and> find (\<lambda>pg. page_id pg = ''b'') (pages pagedState) \<noteq> None
   \<and> \<not> isDirty (changeCurrentPage pagedState ''b'' False 2)
   \<and> \<not> isDirty (deleteCurrentPage pagedState True ''h'' 3)
   \<and> \<not> isDirty (createNewPage pagedState (Some ''n'') ''k'' 4)
   \<and> find (\<lambda>pg. Some (page_id pg) = currentPageId pagedState) (pages pagedState) \<noteq> None
   \<and> \<not> isDirty (saveAsNewPage pagedState (Some ''n'') ''k'' 4)"
proof -
  have e1: "editingEvent Undo" by simp
  have e2: "shapes (step historyState Undo) \<noteq> shapes historyState"
    by (simp add: undo_def historyState_def initialState_def Let_def)
  have pn: "isPanning panningState"
    by (simp add: panningState_def)
  have tr: "truthyStr (currentPageId pagedState)"
    by (simp add: pagedState_simps truthyStr_def)
  have fb: "find (\<lambda>pg. page_id pg = ''b'') (pages pagedState) \<noteq> None"
    by (simp add: pagedState_simps storedPage_id)
  have fa: "find (\<lambda>pg. Some (page_id pg) = currentPageId pagedState) (pages pagedState) \<noteq> None"
    by (simp add: pagedState_simps storedPage_id)
  have nb: "Some ''b'' \<noteq> currentPageId pagedState"
    by (simp add: pagedState_simps)
  from dirty_flag [where e = Undo and st = historyState] e1 e2
  have c1: "isDirty (step historyState Undo)" by blast
  from dirty_flag [where st = initialState and deltaY = "- 10000" and p = "Point 3 4"]
  have c2: "isDirty (handleWheel initialState (- 10000) (Point 3 4)) = isDirty initialState"
    by blast
  from dirty_flag [where st = panningState and p = "Point 5 7"] pn
  have c3: "isDirty (handleMouseMove panningState (Point 5 7)) = isDirty panningState"
    by blast
  from dirty_flag [where st = pagedState and now = 1] tr
  have c4: "\<not> isDirty (commitSave pagedState 1)" by blast
  from dirty_flag [where st = pagedState and ok = True and gid = "''h''" and now = 3] tr
  have c7: "\<not> isDirty (deleteCurrentPage pagedState True ''h'' 3)" by blast
  from dirty_flag [where st = pagedState and nm = "Some ''n''" and n = "''n''"
      and gid = "''k''" and now = 4] tr fa
  have c8: "\<not> isDirty (createNewPage pagedState (Some ''n'') ''k'' 4)"
    and c9: "\<not> isDirty (saveAsNewPage pagedState (Some ''n'') ''k'' 4)"
    by simp_all
  from dirty_flag [where st = pagedState and raw = NoItem and cur = None
      and gid = "''g''" and now = 0]
  have c5': "\<not> isDirty (loadPages pagedState NoItem None ''g'' 0)" by blast
  from dirty_flag [where st = pagedState and i = "''b''" and ok = False and now = 2] nb fb
  have c6': "\<not> isDirty (changeCurrentPage pagedState ''b'' False 2)" by blast
  from e1 e2 c1 c2 pn c3 tr c4 c5' fb c6' c7 c8 fa c9 show ?thesis
    by (simp only: pagedState_simps simp_thms)
qed

text \<open>
  The claim as stated fails. A wheel zoom changes the scale and a pan changes the offset
  while the page stays clean; and a save before any page is current (the stored pages
  did not parse) leaves a dirty page dirty.
\<close>

theorem view_change_not_dirty_counterexample:
  "scale initialState = 1
   \<and> scale (handleWheel initialState (- 10000) (Point 3 4)) = 6
   \<and> \<not> isDirty (handleWheel initialState (- 10000) (Point 3 4))
   \<and> run initialState [ToggleTool (line solid), MouseDown (Point 0 0)] = panningState
   \<and> offset panningState = Point 0 0
   \<and> offset (handleMouseMove panningState (Point 5 7)) = Point 5 7
   \<and> \<not> isDirty (handleMouseMove panningState (Point 5 7))
   \<and> isDirty (run initialState
        [LoadPages ParseError None ''g'' 0, ClearAll, CommitSave 1])"
proof -
  have w: "scale (handleWheel initialState (- 10000) (Point 3 4)) = 6"
    by (simp add: handleWheel_scale initialState_def wheelScale_zoom_in_max)
  have wd: "\<not> isDirty (handleWheel initialState (- 10000) (Point 3 4))"
    by (simp add: handleWheel_isDirty initialState_def)
  have r: "run initialState [ToggleTool (line solid), MouseDown (Point 0 0)] = panningState"
    by (simp add: toggleTool_def handleMouseDown_def panningState_def initialState_def)
  have o: "offset (handleMouseMove panningState (Point 5 7)) = Point 5 7"
    "\<not> isDirty (handleMouseMove panningState (Point 5 7))"
    by (simp_all add: handleMouseMove_def panningState_def initialState_def Let_def)
  have s: "isDirty (run initialState [LoadPages ParseError None ''g'' 0, ClearAll, CommitSave 1])"
    by (simp add: loadPages_def clearAll_def commitSave_def truthyStr_def initialState_def)
  from w wd r o s show ?thesis
    by (simp add: initialState_def panningState_def)
qed

section \<open>Axis and diagonal snapping\<close>

lemma atan2_range: "- pi < atan2 y x \<and> atan2 y x \<le> pi"
proof -
  note b = arctan_bounded [of "y / x"]
  consider (pos) "0 < x" | (neg_up) "x < 0" "0 \<le> y" | (neg_down) "x < 0" "y < 0"
    | (zero) "x = 0"
    by linarith
  then show ?thesis
  proof cases
    case pos
    with b show ?thesis by (simp add: atan2_def)
  next
    case neg_up
    then have "y / x \<le> 0" by (simp add: divide_nonneg_neg)
    then have "arctan (y / x) \<le> 0" by (simp only: arctan_le_zero_iff)
    with b neg_up show ?thesis by (simp add: atan2_def)
  next
    case neg_down
    then have "0 < y / x" by (simp add: divide_neg_neg)
    then have "0 < arctan (y / x)" by (simp only: zero_less_arctan_iff)
    with b neg_down show ?thesis by (simp add: atan2_def)
  next
    case zero
    from zero show ?thesis
      by (simp add: atan2_def; use pi_gt_zero in linarith)
  qed
qed

lemma snapAngleDeg_range:
  "- 180 < snapAngleDeg start end \<and> snapAngleDeg start end \<le> 180"
proof -
  define a where "a = atan2 (p_y end - p_y start) (p_x end - p_x start)"
  have r: "- pi < a" "a \<le> pi"
    using atan2_range [of "p_y end - p_y start" "p_x end - p_x start"] by (simp_all add: a_def)
  have p: "0 < pi" by (rule pi_gt_zero)
  have "- 180 < a * 180 / pi"
    using r(1) p by (simp add: field_simps)
  moreover have "a * 180 / pi \<le> 180"
    using r(2) p by (simp add: field_simps)
  ultimately show ?thesis
    by (simp add: snapAngleDeg_def a_def)
qed

lemma js_rem_360:
  assumes "0 \<le> a"
  shows "js_rem a 360 = a - 360 * of_int \<lfloor>a / 360\<rfloor>"
  using assms by (simp add: js_rem_def Let_def)

lemma floor_360:
  fixes y :: real
  assumes "360 * of_int k \<le> y" and "y < 360 * of_int k + 360"
  shows "\<lfloor>y / 360\<rfloor> = k"
  using assms by (intro floor_unique) (simp_all add: field_simps)

lemma near_withinDegrees:
  assumes a: "- 180 < a" "a \<le> 180" and b: "- 180 \<le> b" "b \<le> 180" and t: "0 \<le> t" "t < 180"
  shows "near a b t = withinDegrees a b t"
proof -
  define y where "y = a - b + 180 + 360"
  have y0: "0 \<le> y" using a b by (simp add: y_def)
  consider (low) "a - b < - 180" | (mid) "- 180 \<le> a - b" "a - b < 180" | (high) "180 \<le> a - b"
    by linarith
  then show ?thesis
  proof cases
    case low
    have "\<lfloor>y / 360\<rfloor> = 0"
      using low a b by (intro floor_360) (simp_all add: y_def)
    then have "js_rem y 360 - 180 = a - b + 360"
      by (simp add: js_rem_360 [OF y0]) (simp add: y_def)
    then show ?thesis
      using low t a b by (simp add: near_def withinDegrees_def y_def [symmetric]; linarith)
  next
    case mid
    have "\<lfloor>y / 360\<rfloor> = 1"
      using mid by (intro floor_360) (simp_all add: y_def)
    then have "js_rem y 360 - 180 = a - b"
      by (simp add: js_rem_360 [OF y0]) (simp add: y_def)
    then show ?thesis
      using mid t by (simp add: near_def withinDegrees_def y_def [symmetric]; linarith)
  next
    case high
    have "\<lfloor>y / 360\<rfloor> = 2"
      using high a b by (intro floor_360) (simp_all add: y_def)
    then have "js_rem y 360 - 180 = a - b - 360"
      by (simp add: js_rem_360 [OF y0]) (simp add: y_def)
    then show ?thesis
      using high t a b by (simp add: near_def withinDegrees_def y_def [symmetric]; linarith)
  qed
qed

lemma near_snapAngleDeg:
  assumes "- 180 \<le> b" "b \<le> 180"
  shows "near (snapAngleDeg start end) b 10 = withinDegrees (snapAngleDeg start end) b 10"
  using snapAngleDeg_range [of start "end"] assms by (intro near_withinDegrees) simp_all

lemma withinDegrees_intervals:
  assumes "- 180 < d" "d \<le> 180"
  shows "withinDegrees d 0 10 \<longleftrightarrow> - 10 \<le> d \<and> d \<le> 10"
    and "withinDegrees d 180 10 \<longleftrightarrow> d \<le> - 170 \<or> 170 \<le> d"
    and "withinDegrees d 90 10 \<longleftrightarrow> 80 \<le> d \<and> d \<le> 100"
    and "withinDegrees d (- 90) 10 \<longleftrightarrow> - 100 \<le> d \<and> d \<le> - 80"
    and "withinDegrees d 45 10 \<longleftrightarrow> 35 \<le> d \<and> d \<le> 55"
    and "withinDegrees d 135 10 \<longleftrightarrow> 125 \<le> d \<and> d \<le> 145"
    and "withinDegrees d (- 45) 10 \<longleftrightarrow> - 55 \<le> d \<and> d \<le> - 35"
    and "withinDegrees d (- 135) 10 \<longleftrightarrow> - 145 \<le> d \<and> d \<le> - 125"
  using assms by (simp_all add: withinDegrees_def; linarith)+

lemma hypot_zero_angle:
  assumes "hypot (p_x end - p_x start) (p_y end - p_y start) = 0"
  shows "snapAngleDeg start end = 0"
proof -
  from assms have "(p_x end - p_x start) * (p_x end - p_x start)
      + (p_y end - p_y start) * (p_y end - p_y start) = 0"
    by (simp add: hypot_def)
  then have "p_x end - p_x start = 0" "p_y end - p_y start = 0"
    by (simp_all only: sum_squares_zero)
  then show ?thesis
    by (simp add: snapAngleDeg_def atan2_def)
qed

lemma snapLen_hypot:
  assumes "snapAngleDeg start end \<noteq> 0"
  shows "snapLen start end = hypot (p_x end - p_x start) (p_y end - p_y start)"
  using assms hypot_zero_angle [of "end" start] by (auto simp add: snapLen_def Let_def)

lemma diagLoop_forty5:
  "diagLoop start len deg forty5 =
     (if near deg 45 10 then Some (rayPoint start len 45)
      else if near deg 135 10 then Some (rayPoint start len 135)
      else if near deg (- 45) 10 then Some (rayPoint start len (- 45))
      else if near deg (- 135) 10 then Some (rayPoint start len (- 135))
      else None)"
  by (simp add: forty5_def rayPoint_def mult.commute)

lemma snapAxisFromStart_cases:
  fixes start "end" :: point
  defines "deg \<equiv> snapAngleDeg start end"
  shows "snapAxisFromStart start end =
     (if (- 10 \<le> deg \<and> deg \<le> 10) \<or> deg \<le> - 170 \<or> 170 \<le> deg
        then Point (p_x end) (p_y start)
      else if (80 \<le> deg \<and> deg \<le> 100) \<or> (- 100 \<le> deg \<and> deg \<le> - 80)
        then Point (p_x start) (p_y end)
      else if 35 \<le> deg \<and> deg \<le> 55 then rayPoint start (snapLen start end) 45
      else if 125 \<le> deg \<and> deg \<le> 145 then rayPoint start (snapLen start end) 135
      else if - 55 \<le> deg \<and> deg \<le> - 35 then rayPoint start (snapLen start end) (- 45)
      else if - 145 \<le> deg \<and> deg \<le> - 125 then rayPoint start (snapLen start end) (- 135)
      else end)"
proof -
  have r: "- 180 < deg" "deg \<le> 180"
    using snapAngleDeg_range [of start "end"] by (simp_all add: deg_def)
  have n: "near deg b 10 = withinDegrees deg b 10" if "- 180 \<le> b" "b \<le> 180" for b
    unfolding deg_def using that by (rule near_snapAngleDeg)
  note w = withinDegrees_intervals [OF r]
  have n0: "near deg 0 10 \<longleftrightarrow> - 10 \<le> deg \<and> deg \<le> 10"
    and n180: "near deg 180 10 \<longleftrightarrow> deg \<le> - 170 \<or> 170 \<le> deg"
    and n90: "near deg 90 10 \<longleftrightarrow> 80 \<le> deg \<and> deg \<le> 100"
    and nm90: "near deg (- 90) 10 \<longleftrightarrow> - 100 \<le> deg \<and> deg \<le> - 80"
    and n45: "near deg 45 10 \<longleftrightarrow> 35 \<le> deg \<and> deg \<le> 55"
    and n135: "near deg 135 10 \<longleftrightarrow> 125 \<le> deg \<and> deg \<le> 145"
    and nm45: "near deg (- 45) 10 \<longleftrightarrow> - 55 \<le> deg \<and> deg \<le> - 35"
    and nm135: "near deg (- 135) 10 \<longleftrightarrow> - 145 \<le> deg \<and> deg \<le> - 125"
    by (simp_all add: n w)
  show ?thesis
    unfolding snapAxisFromStart_def Let_def diagLoop_forty5 deg_def [symmetric]
    by (simp only: n0 n180 n90 nm90 n45 n135 nm45 nm135 disj_assoc) simp
qed

lemma hypot_factor:
  assumes "x \<noteq> 0"
  shows "hypot x y = \<bar>x\<bar> * sqrt (1 + (y / x)\<^sup>2)"
proof -
  have "x * x + y * y = (x * x) * (1 + (y / x)\<^sup>2)"
    using assms by (simp add: power2_eq_square field_simps)
  then have "hypot x y = sqrt ((x * x) * (1 + (y / x)\<^sup>2))"
    by (simp add: hypot_def)
  also have "\<dots> = sqrt (x * x) * sqrt (1 + (y / x)\<^sup>2)"
    by (rule real_sqrt_mult)
  also have "\<dots> = \<bar>x\<bar> * sqrt (1 + (y / x)\<^sup>2)"
    by (simp only: real_sqrt_abs2)
  finally show ?thesis .
qed

lemma atan2_polar:
  "x = hypot x y * cos (atan2 y x) \<and> y = hypot x y * sin (atan2 y x)"
proof -
  define s where "s = sqrt (1 + (y / x)\<^sup>2)"
  have spos: "0 < s"
    unfolding s_def by (intro real_sqrt_gt_zero) (simp add: add_pos_nonneg)
  have c: "cos (arctan (y / x)) = 1 / s" and sn: "sin (arctan (y / x)) = (y / x) / s"
    by (simp_all add: s_def cos_arctan sin_arctan)
  consider (pos) "0 < x" | (neg) "x < 0" | (zero) "x = 0"
    by linarith
  then show ?thesis
  proof cases
    case pos
    then have h: "hypot x y = x * s"
      using hypot_factor [of x y] by (simp add: s_def)
    from pos spos show ?thesis
      by (simp add: atan2_def h c sn)
  next
    case neg
    then have h: "hypot x y = - x * s"
      using hypot_factor [of x y] by (simp add: s_def)
    from neg spos show ?thesis
      by (simp add: atan2_def h c sn)
  next
    case zero
    then show ?thesis
      by (simp add: atan2_def hypot_def)
  qed
qed

lemma snapAngleDeg_polar:
  "p_x end - p_x start
     = hypot (p_x end - p_x start) (p_y end - p_y start) * cos (snapAngleDeg start end * pi / 180)
   \<and> p_y end - p_y start
     = hypot (p_x end - p_x start) (p_y end - p_y start) * sin (snapAngleDeg start end * pi / 180)"
  using atan2_polar [of "p_x end - p_x start" "p_y end - p_y start"]
  by (simp add: snapAngleDeg_def)

text \<open>
  Claim C6. With the angle of the vector from \<open>start\<close> to \<open>end\<close> measured in degrees
  (more than \<open>-180\<close>, at most \<open>180\<close>), \<open>snapAxisFromStart\<close> returns \<open>(end.x, start.y)\<close>
  when the angle is within 10 degrees of 0 or 180, returns \<open>(start.x, end.y)\<close> when it is
  within 10 degrees of 90 or -90, returns the point of the exact diagonal ray from
  \<open>start\<close> at the length of the vector when it is within 10 degrees of 45, 135, -45 or
  -135, and returns \<open>end\<close> otherwise.
\<close>

theorem snap_axis_from_start:
  "- 180 < snapAngleDeg start end \<and> snapAngleDeg start end \<le> 180
   \<and> p_x end - p_x start
       = hypot (p_x end - p_x start) (p_y end - p_y start) * cos (snapAngleDeg start end * pi / 180)
   \<and> p_y end - p_y start
       = hypot (p_x end - p_x start) (p_y end - p_y start) * sin (snapAngleDeg start end * pi / 180)
   \<and> (withinDegrees (snapAngleDeg start end) 0 10 \<or> withinDegrees (snapAngleDeg start end) 180 10
        \<longrightarrow> snapAxisFromStart start end = Point (p_x end) (p_y start))
   \<and> (withinDegrees (snapAngleDeg start end) 90 10 \<or> withinDegrees (snapAngleDeg start end) (- 90) 10
        \<longrightarrow> snapAxisFromStart start end = Point (p_x start) (p_y end))
   \<and> (t \<in> {45, 135, - 45, - 135} \<and> withinDegrees (snapAngleDeg start end) t 10
        \<longrightarrow> snapAxisFromStart start end
            = rayPoint start (hypot (p_x end - p_x start) (p_y end - p_y start)) t)
   \<and> (\<not> withinDegrees (snapAngleDeg start end) 0 10
        \<and> \<not> withinDegrees (snapAngleDeg start end) 180 10
        \<and> \<not> withinDegrees (snapAngleDeg start end) 90 10
        \<and> \<not> withinDegrees (snapAngleDeg start end) (- 90) 10
        \<and> \<not> withinDegrees (snapAngleDeg start end) 45 10
        \<and> \<not> withinDegrees (snapAngleDeg start end) 135 10
        \<and> \<not> withinDegrees (snapAngleDeg start end) (- 45) 10
        \<and> \<not> withinDegrees (snapAngleDeg start end) (- 135) 10
        \<longrightarrow> snapAxisFromStart start end = end)"
proof -
  define deg where "deg = snapAngleDeg start end"
  have r: "- 180 < deg" "deg \<le> 180"
    using snapAngleDeg_range [of start "end"] by (simp_all add: deg_def)
  note w = withinDegrees_intervals [OF r]
  note c = snapAxisFromStart_cases [of start "end", folded deg_def]
  let ?H = "(- 10 \<le> deg \<and> deg \<le> 10) \<or> deg \<le> - 170 \<or> 170 \<le> deg"
  let ?V = "(80 \<le> deg \<and> deg \<le> 100) \<or> (- 100 \<le> deg \<and> deg \<le> - 80)"
  have horizontal: "snapAxisFromStart start end = Point (p_x end) (p_y start)"
    if "withinDegrees deg 0 10 \<or> withinDegrees deg 180 10"
  proof -
    from that have h: ?H by (simp add: w)
    show ?thesis by (simp only: c if_P [OF h])
  qed
  have vertical: "snapAxisFromStart start end = Point (p_x start) (p_y end)"
    if "withinDegrees deg 90 10 \<or> withinDegrees deg (- 90) 10"
  proof -
    from that have v: ?V by (simp add: w)
    then have nh: "\<not> ?H" by linarith
    show ?thesis by (simp only: c if_not_P [OF nh] if_P [OF v])
  qed
  have diagonal: "snapAxisFromStart start end
      = rayPoint start (hypot (p_x end - p_x start) (p_y end - p_y start)) t"
    if "t \<in> {45, 135, - 45, - 135} \<and> withinDegrees deg t 10"
  proof -
    from that have "deg \<noteq> 0"
      by (auto simp add: withinDegrees_def)
    then have len: "snapLen start end = hypot (p_x end - p_x start) (p_y end - p_y start)"
      unfolding deg_def by (rule snapLen_hypot)
    from that consider (a) "t = 45" "withinDegrees deg 45 10"
      | (b) "t = 135" "withinDegrees deg 135 10"
      | (c) "t = - 45" "withinDegrees deg (- 45) 10"
      | (d) "t = - 135" "withinDegrees deg (- 135) 10"
      by auto
    then show ?thesis
    proof cases
      case a
      then have d: "35 \<le> deg \<and> deg \<le> 55" by (simp add: w)
      then have nh: "\<not> ?H" and nv: "\<not> ?V" by linarith+
      show ?thesis
        by (simp only: c if_not_P [OF nh] if_not_P [OF nv] if_P [OF d] len a(1))
    next
      case b
      then have d: "125 \<le> deg \<and> deg \<le> 145" by (simp add: w)
      then have nh: "\<not> ?H" and nv: "\<not> ?V" and n1: "\<not> (35 \<le> deg \<and> deg \<le> 55)"
        by linarith+
      show ?thesis
        by (simp only: c if_not_P [OF nh] if_not_P [OF nv] if_not_P [OF n1] if_P [OF d] len b(1))
    next
      case c
      then have d: "- 55 \<le> deg \<and> deg \<le> - 35" by (simp add: w)
      then have nh: "\<not> ?H" and nv: "\<not> ?V" and n1: "\<not> (35 \<le> deg \<and> deg \<le> 55)"
        and n2: "\<not> (125 \<le> deg \<and> deg \<le> 145)"
        by linarith+
      show ?thesis
        by (simp only: snapAxisFromStart_cases [of start "end", folded deg_def]
            if_not_P [OF nh] if_not_P [OF nv] if_not_P [OF n1] if_not_P [OF n2] if_P [OF d]
            len c(1))
    next
      case d
      then have e: "- 145 \<le> deg \<and> deg \<le> - 125" by (simp add: w)
      then have nh: "\<not> ?H" and nv: "\<not> ?V" and n1: "\<not> (35 \<le> deg \<and> deg \<le> 55)"
        and n2: "\<not> (125 \<le> deg \<and> deg \<le> 145)" and n3: "\<not> (- 55 \<le> deg \<and> deg \<le> - 35)"
        by linarith+
      show ?thesis
        by (simp only: c if_not_P [OF nh] if_not_P [OF nv] if_not_P [OF n1] if_not_P [OF n2]
            if_not_P [OF n3] if_P [OF e] len d(1))
    qed
  qed
  have none: "snapAxisFromStart start end = end"
    if "\<not> withinDegrees deg 0 10 \<and> \<not> withinDegrees deg 180 10
      \<and> \<not> withinDegrees deg 90 10 \<and> \<not> withinDegrees deg (- 90) 10
      \<and> \<not> withinDegrees deg 45 10 \<and> \<not> withinDegrees deg 135 10
      \<and> \<not> withinDegrees deg (- 45) 10 \<and> \<not> withinDegrees deg (- 135) 10"
  proof -
    from that have nh: "\<not> ?H" by (simp add: w)
    from that have nv: "\<not> ?V" by (simp add: w)
    from that have n1: "\<not> (35 \<le> deg \<and> deg \<le> 55)" by (simp add: w)
    from that have n2: "\<not> (125 \<le> deg \<and> deg \<le> 145)" by (simp add: w)
    from that have n3: "\<not> (- 55 \<le> deg \<and> deg \<le> - 35)" by (simp add: w)
    from that have n4: "\<not> (- 145 \<le> deg \<and> deg \<le> - 125)" by (simp add: w)
    show ?thesis
      by (simp only: c if_not_P [OF nh] if_not_P [OF nv] if_not_P [OF n1] if_not_P [OF n2]
          if_not_P [OF n3] if_not_P [OF n4])
  qed
  note p = snapAngleDeg_polar [of "end" start, folded deg_def]
  have A: "withinDegrees deg 0 10 \<or> withinDegrees deg 180 10
      \<longrightarrow> snapAxisFromStart start end = Point (p_x end) (p_y start)"
    by (rule impI) (rule horizontal)
  have B: "withinDegrees deg 90 10 \<or> withinDegrees deg (- 90) 10
      \<longrightarrow> snapAxisFromStart start end = Point (p_x start) (p_y end)"
    by (rule impI) (rule vertical)
  have C: "t \<in> {45, 135, - 45, - 135} \<and> withinDegrees deg t 10
      \<longrightarrow> snapAxisFromStart start end
          = rayPoint start (hypot (p_x end - p_x start) (p_y end - p_y start)) t"
    by (rule impI) (rule diagonal)
  have D: "\<not> withinDegrees deg 0 10 \<and> \<not> withinDegrees deg 180 10
      \<and> \<not> withinDegrees deg 90 10 \<and> \<not> withinDegrees deg (- 90) 10
      \<and> \<not> withinDegrees deg 45 10 \<and> \<not> withinDegrees deg 135 10
      \<and> \<not> withinDegrees deg (- 45) 10 \<and> \<not> withinDegrees deg (- 135) 10
      \<longrightarrow> snapAxisFromStart start end = end"
    by (rule impI) (rule none)
  have "- 180 < deg \<and> deg \<le> 180
    \<and> p_x end - p_x start
        = hypot (p_x end - p_x start) (p_y end - p_y start) * cos (deg * pi / 180)
    \<and> p_y end - p_y start
        = hypot (p_x end - p_x start) (p_y end - p_y start) * sin (deg * pi / 180)
    \<and> (withinDegrees deg 0 10 \<or> withinDegrees deg 180 10
         \<longrightarrow> snapAxisFromStart start end = Point (p_x end) (p_y start))
    \<and> (withinDegrees deg 90 10 \<or> withinDegrees deg (- 90) 10
         \<longrightarrow> snapAxisFromStart start end = Point (p_x start) (p_y end))
    \<and> (t \<in> {45, 135, - 45, - 135} \<and> withinDegrees deg t 10
         \<longrightarrow> snapAxisFromStart start end
             = rayPoint start (hypot (p_x end - p_x start) (p_y end - p_y start)) t)
    \<and> (\<not> withinDegrees deg 0 10 \<and> \<not> withinDegrees deg 180 10
         \<and> \<not> withinDegrees deg 90 10 \<and> \<not> withinDegrees deg (- 90) 10
         \<and> \<not> withinDegrees deg 45 10 \<and> \<not> withinDegrees deg 135 10
         \<and> \<not> withinDegrees deg (- 45) 10 \<and> \<not> withinDegrees deg (- 135) 10
         \<longrightarrow> snapAxisFromStart start end = end)"
    by (intro conjI r conjunct1 [OF p] conjunct2 [OF p] A B C D)
  then show ?thesis
    unfolding deg_def .
qed

lemma arctan_small: "0 \<le> arctan (6 / 100) \<and> arctan (6 / 100) \<le> pi / 20"
proof -
  have "arctan (6 / 100) \<le> arctan (1 / 7)"
    by (rule arctan_monotone') simp
  moreover have "0 \<le> arctan (3 / 79)"
    by simp
  moreover note machin_Euler
  ultimately have "arctan (6 / 100) \<le> pi / 20"
    by linarith
  then show ?thesis by simp
qed

lemma angle_100_6:
  "0 \<le> snapAngleDeg (Point 0 0) (Point 100 6) \<and> snapAngleDeg (Point 0 0) (Point 100 6) \<le> 9"
proof -
  have "snapAngleDeg (Point 0 0) (Point 100 6) = arctan (6 / 100) * 180 / pi"
    by (simp add: snapAngleDeg_def atan2_def)
  moreover have "0 \<le> arctan (6 / 100) * 180 / pi"
    using arctan_small by simp
  moreover have "arctan (6 / 100) * 180 / pi \<le> 9"
    using arctan_small pi_gt_zero by (simp add: field_simps)
  ultimately show ?thesis by simp
qed

lemma angle_6_100:
  "81 \<le> snapAngleDeg (Point 0 0) (Point 6 100) \<and> snapAngleDeg (Point 0 0) (Point 6 100) \<le> 90"
proof -
  have inv: "arctan (1 / (6 / 100)) = sgn (6 / 100 :: real) * pi / 2 - arctan (6 / 100)"
    by (rule arctan_inverse) simp
  have "snapAngleDeg (Point 0 0) (Point 6 100) = arctan (100 / 6) * 180 / pi"
    by (simp add: snapAngleDeg_def atan2_def)
  also have "arctan (100 / 6) = pi / 2 - arctan (6 / 100)"
    using inv by simp
  also have "(pi / 2 - arctan (6 / 100)) * 180 / pi = 90 - arctan (6 / 100) * 180 / pi"
    using pi_gt_zero by (simp add: field_simps)
  finally have e: "snapAngleDeg (Point 0 0) (Point 6 100) = 90 - arctan (6 / 100) * 180 / pi" .
  have "0 \<le> arctan (6 / 100) * 180 / pi"
    using arctan_small by simp
  moreover have "arctan (6 / 100) * 180 / pi \<le> 9"
    using arctan_small pi_gt_zero by (simp add: field_simps)
  ultimately show ?thesis
    using e by simp
qed

lemma angle_1_1: "snapAngleDeg (Point 0 0) (Point 1 1) = 45"
  by (simp add: snapAngleDeg_def atan2_def arctan_one)

lemma angle_1_sqrt3: "snapAngleDeg (Point 0 0) (Point 1 (sqrt 3)) = 60"
proof -
  have "- (pi / 2) < pi / 3" "pi / 3 < pi / 2"
    using pi_gt_zero by linarith+
  then have a: "arctan (sqrt 3) = pi / 3"
    by (rule arctan_unique) (rule tan_60)
  have "snapAngleDeg (Point 0 0) (Point 1 (sqrt 3)) = arctan (sqrt 3) * 180 / pi"
    by (simp add: snapAngleDeg_def atan2_def)
  also have "\<dots> = 60"
    unfolding a by simp
  finally show ?thesis .
qed

theorem snap_axis_from_start_witness:
  "withinDegrees (snapAngleDeg (Point 0 0) (Point 100 6)) 0 10
   \<and> snapAxisFromStart (Point 0 0) (Point 100 6) = Point 100 0
   \<and> withinDegrees (snapAngleDeg (Point 0 0) (Point 6 100)) 90 10
   \<and> snapAxisFromStart (Point 0 0) (Point 6 100) = Point 0 100
   \<and> snapAngleDeg (Point 0 0) (Point 1 1) = 45
   \<and> withinDegrees 45 45 10
   \<and> snapAxisFromStart (Point 0 0) (Point 1 1) = Point 1 1
   \<and> snapAngleDeg (Point 0 0) (Point 1 (sqrt 3)) = 60
   \<and> \<not> withinDegrees 60 0 10 \<and> \<not> withinDegrees 60 180 10
   \<and> \<not> withinDegrees 60 90 10 \<and> \<not> withinDegrees 60 (- 90) 10
   \<and> \<not> withinDegrees 60 45 10 \<and> \<not> withinDegrees 60 135 10
   \<and> \<not> withinDegrees 60 (- 45) 10 \<and> \<not> withinDegrees 60 (- 135) 10
   \<and> snapAxisFromStart (Point 0 0) (Point 1 (sqrt 3)) = Point 1 (sqrt 3)"
proof -
  have h: "withinDegrees (snapAngleDeg (Point 0 0) (Point 100 6)) 0 10"
    using angle_100_6 by (simp add: withinDegrees_def)
  from snap_axis_from_start [of "Point 0 0" "Point 100 6"] h
  have h': "snapAxisFromStart (Point 0 0) (Point 100 6) = Point 100 0"
    by simp
  have v: "withinDegrees (snapAngleDeg (Point 0 0) (Point 6 100)) 90 10"
    using angle_6_100 by (simp add: withinDegrees_def)
  from snap_axis_from_start [of "Point 0 0" "Point 6 100"] v
  have v': "snapAxisFromStart (Point 0 0) (Point 6 100) = Point 0 100"
    by simp
  have d: "withinDegrees 45 45 10"
    by (simp add: withinDegrees_def)
  have ray: "rayPoint (Point 0 0) (hypot 1 1) 45 = Point 1 1"
    by (simp add: rayPoint_def hypot_def cos_45 sin_45)
  from snap_axis_from_start [of "Point 0 0" "Point 1 1" 45] d
  have d': "snapAxisFromStart (Point 0 0) (Point 1 1) = Point 1 1"
    by (simp add: angle_1_1 ray)
  have n: "\<not> withinDegrees 60 0 10" "\<not> withinDegrees 60 180 10"
    "\<not> withinDegrees 60 90 10" "\<not> withinDegrees 60 (- 90) 10"
    "\<not> withinDegrees 60 45 10" "\<not> withinDegrees 60 135 10"
    "\<not> withinDegrees 60 (- 45) 10" "\<not> withinDegrees 60 (- 135) 10"
    by (simp_all add: withinDegrees_def)
  from snap_axis_from_start [of "Point 0 0" "Point 1 (sqrt 3)"] n
  have n': "snapAxisFromStart (Point 0 0) (Point 1 (sqrt 3)) = Point 1 (sqrt 3)"
    by (simp add: angle_1_sqrt3)
  from h h' v v' d d' n n' show ?thesis
    by (simp only: angle_1_1 angle_1_sqrt3 simp_thms)
qed

end
